theory Spec2Isabelle
  imports Main
begin

section \<open>The scraper of \<^verbatim>\<open>scraper.py\<close>: crawl, extract, chunk\<close>

text \<open>
  Python \<^verbatim>\<open>str\<close> values are modelled as \<^typ>\<open>string\<close> (lists of characters,
  read as code points below 256), \<^verbatim>\<open>None\<close> as \<^const>\<open>None\<close>, a raised exception as
  the left injection of a sum. The third-party libraries the script calls
  (\<^verbatim>\<open>urllib.parse\<close>, \<^verbatim>\<open>bs4\<close>, \<^verbatim>\<open>langchain\<close>, \<^verbatim>\<open>cloudscraper\<close>) are not part of
  the repository; the functions of the script take them as parameters. The text
  splitter is, in addition, written out from its description in the specification.
\<close>

subsection \<open>Errors\<close>

text \<open>The exceptions that the code of the script itself can raise.\<close>

datatype error = TypeError | IndexError

subsection \<open>The text chunker: \<^verbatim>\<open>chunk_page_content\<close>\<close>

text \<open>
  One entry of \<^verbatim>\<open>chunked_data\<close>: the dictionary with the keys \<^verbatim>\<open>url\<close>, \<^verbatim>\<open>title\<close>,
  \<^verbatim>\<open>chunk_id\<close> and \<^verbatim>\<open>text\<close>.
\<close>

record chunk =
  chunk_url :: string
  chunk_title :: string
  chunk_id :: nat
  chunk_text :: string

text \<open>
  \<^verbatim>\<open>create_documents\<close> stands for
  \<^verbatim>\<open>RecursiveCharacterTextSplitter(chunk_size=2000, chunk_overlap=200, ...).create_documents([page_text])\<close>
  followed by reading \<^verbatim>\<open>page_content\<close> of every document: the splitter is library code.
  The loop over \<^verbatim>\<open>enumerate(docs)\<close> is the map over the list paired with its indices.
\<close>

definition chunk_page_content ::
  "(string \<Rightarrow> string list) \<Rightarrow> string \<Rightarrow> string \<Rightarrow> string \<Rightarrow> chunk list" where
  "chunk_page_content create_documents title page_text url =
     (if page_text = [] then []
      else map (\<lambda>(i, doc). \<lparr>chunk_url = url, chunk_title = title, chunk_id = i, chunk_text = doc\<rparr>)
             (enumerate 0 (create_documents page_text)))"

text \<open>A stand-in splitter for running examples: pieces of three characters, no overlap.\<close>

fun pieces_of_three :: "string \<Rightarrow> string list" where
  "pieces_of_three (a # b # c # d # rest) = [a, b, c] # pieces_of_three (d # rest)"
| "pieces_of_three s = (if s = [] then [] else [s])"

subsection \<open>The recursive splitter\<close>

text \<open>
  Modelled from the spec: the text splitter, which the script takes from a library
  (\<^verbatim>\<open>RecursiveCharacterTextSplitter\<close> of LangChain) and which is not in the
  repository. Section 4.3 of the specification describes it: a recursive strategy
  over a prioritised list of separators (paragraph breaks, then sentence breaks, then
  spaces, then a hard character cut), segments of at most the maximum chunk size,
  consecutive segments sharing an overlap, and a single indivisible unit longer than
  the maximum emitted as its own oversized chunk. The functions of this subsection
  are that description written out; the list of separators, the maximum size and
  the overlap are parameters.
\<close>

text \<open>
  Modelled from the spec: splitting a text at a boundary. The text is cut before
  every occurrence of the separator, found from left to right, so that the pieces
  put together are the text again (nothing is dropped); the empty separator is the
  hard cut into single characters.
\<close>

function split_scan :: "string \<Rightarrow> string \<Rightarrow> string \<Rightarrow> string list" where
  "split_scan sep piece [] = [piece]"
| "split_scan sep piece (c # cs) =
     (if sep \<noteq> [] \<and> take (length sep) (c # cs) = sep
      then piece # split_scan sep sep (drop (length sep) (c # cs))
      else split_scan sep (piece @ [c]) cs)"
  by pat_completeness auto
termination
  by (relation "measure (\<lambda>(sep, piece, rest). length rest)") auto

definition split_on :: "string \<Rightarrow> string \<Rightarrow> string list" where
  "split_on sep text =
     (if sep = [] then map (\<lambda>c. [c]) text
      else filter (\<lambda>piece. piece \<noteq> []) (split_scan sep [] text))"

text \<open>Modelled from the spec: the length of a run of pieces, measured in characters.\<close>

fun total_length :: "string list \<Rightarrow> nat" where
  "total_length [] = 0"
| "total_length (d # ds) = length d + total_length ds"

text \<open>
  Modelled from the spec: the overlap. When a segment is closed, pieces are taken from
  its front until what is left is no longer than the overlap and leaves room for the
  next piece of length \<open>len\<close>; what is left opens the next segment.
\<close>

fun trim_overlap :: "nat \<Rightarrow> nat \<Rightarrow> nat \<Rightarrow> string list \<Rightarrow> string list" where
  "trim_overlap chunk_size chunk_overlap len [] = []"
| "trim_overlap chunk_size chunk_overlap len (p # ps) =
     (if chunk_overlap < total_length (p # ps) \<or>
         (chunk_size < total_length (p # ps) + len \<and> 0 < total_length (p # ps))
      then trim_overlap chunk_size chunk_overlap len ps
      else p # ps)"

text \<open>
  Modelled from the spec: pieces shorter than the maximum are joined, in order, into
  segments that do not exceed the maximum chunk size.
\<close>

fun merge_from :: "nat \<Rightarrow> nat \<Rightarrow> string list \<Rightarrow> string list \<Rightarrow> string list" where
  "merge_from chunk_size chunk_overlap current [] = (if current = [] then [] else [concat current])"
| "merge_from chunk_size chunk_overlap current (d # ds) =
     (if chunk_size < total_length current + length d
      then (if current = [] then merge_from chunk_size chunk_overlap [d] ds
            else concat current #
                 merge_from chunk_size chunk_overlap
                   (trim_overlap chunk_size chunk_overlap (length d) current @ [d]) ds)
      else merge_from chunk_size chunk_overlap (current @ [d]) ds)"

definition merge_splits :: "nat \<Rightarrow> nat \<Rightarrow> string list \<Rightarrow> string list" where
  "merge_splits chunk_size chunk_overlap splits = merge_from chunk_size chunk_overlap [] splits"

text \<open>
  Modelled from the spec: the recursive strategy. The pieces at one boundary are gone
  through in order; the short ones are collected and merged, a piece that reaches the
  maximum is split again at the next boundary of the list (\<open>deeper\<close>). When no
  separator is left the piece is a single indivisible unit and becomes a chunk as it
  is.
\<close>

fun handle_pieces ::
  "(string \<Rightarrow> string list) \<Rightarrow> nat \<Rightarrow> nat \<Rightarrow> string list \<Rightarrow> string list \<Rightarrow> string list" where
  "handle_pieces deeper chunk_size chunk_overlap small [] =
     merge_splits chunk_size chunk_overlap small"
| "handle_pieces deeper chunk_size chunk_overlap small (p # ps) =
     (if length p < chunk_size
      then handle_pieces deeper chunk_size chunk_overlap (small @ [p]) ps
      else merge_splits chunk_size chunk_overlap small @ deeper p @
           handle_pieces deeper chunk_size chunk_overlap [] ps)"

fun split_text :: "string list \<Rightarrow> nat \<Rightarrow> nat \<Rightarrow> string \<Rightarrow> string list" where
  "split_text [] chunk_size chunk_overlap text = [text]"
| "split_text (sep # separators) chunk_size chunk_overlap text =
     handle_pieces (split_text separators chunk_size chunk_overlap) chunk_size chunk_overlap []
       (split_on sep text)"

text \<open>
  Modelled from the spec: the single indivisible units that exceed the limit, that is
  the pieces that are left when every separator of the list has been applied to the
  pieces that reach the maximum.
\<close>

fun oversized_units :: "string list \<Rightarrow> nat \<Rightarrow> string \<Rightarrow> string list" where
  "oversized_units [] chunk_size text = [text]"
| "oversized_units (sep # separators) chunk_size text =
     concat (map (oversized_units separators chunk_size)
               (filter (\<lambda>p. chunk_size \<le> length p) (split_on sep text)))"

text \<open>
  Modelled from the spec: the default list of boundaries, largest first: the paragraph
  break, the line break (for the break between sentences), the space, and the hard
  cut.
\<close>

definition default_separators :: "string list" where
  "default_separators = [''\<newline>\<newline>'', ''\<newline>'', '' '', '''']"

text \<open>A text with a word of more than ten characters, for running the splitter.\<close>

definition sample_text :: string where
  "sample_text = ''one two three averyveryverylongword end''"

subsection \<open>The URL filter: \<^verbatim>\<open>is_valid_url\<close>\<close>

definition BASE_URL :: string where
  "BASE_URL = ''https://www.madewithnestle.ca/''"

text \<open>The six fields of the named tuple that \<^verbatim>\<open>urllib.parse.urlparse\<close> returns.\<close>

record parse_result =
  scheme :: string
  netloc :: string
  path :: string
  params :: string
  query :: string
  fragment :: string

text \<open>\<^verbatim>\<open>needle in haystack\<close> on strings: \<open>needle\<close> occurs as a contiguous substring.\<close>

fun str_contains :: "string \<Rightarrow> string \<Rightarrow> bool" where
  "str_contains needle [] = (needle = [])"
| "str_contains needle (c # cs) =
     (take (length needle) (c # cs) = needle \<or> str_contains needle cs)"

text \<open>\<^verbatim>\<open>s.endswith(suf)\<close>; with a tuple of suffixes Python asks whether one of them fits.\<close>

definition endswith :: "string \<Rightarrow> string \<Rightarrow> bool" where
  "endswith s suf = (length suf \<le> length s \<and> drop (length s - length suf) s = suf)"

definition ignored_file_types :: "string list" where
  "ignored_file_types =
     [''.pdf'', ''.jpg'', ''.jpeg'', ''.png'', ''.gif'', ''.zip'', ''.mp4'', ''.mov'', ''.avi'']"

text \<open>
  \<^verbatim>\<open>is_valid_url(url)\<close>. The parser \<^verbatim>\<open>urlparse\<close> is the library's and is a parameter;
  the two substring tests are made on the whole \<^verbatim>\<open>url\<close> string, not on its scheme.
\<close>

definition is_valid_url :: "(string \<Rightarrow> parse_result) \<Rightarrow> string \<Rightarrow> bool" where
  "is_valid_url urlparse url =
     (let parsed_base = urlparse BASE_URL;
          parsed_url = urlparse url
      in scheme parsed_url \<in> set [''http'', ''https''] \<and>
         netloc parsed_url = netloc parsed_base \<and>
         \<not> list_ex (endswith (path parsed_url)) ignored_file_types \<and>
         query parsed_url = [] \<and>
         \<not> str_contains ''mailto:'' url \<and>
         \<not> str_contains ''tel:'' url)"

subsubsection \<open>The library's \<^verbatim>\<open>urlparse\<close> on plain URLs\<close>

text \<open>
  To run the filter on concrete URLs, the splitting done by CPython's
  \<^verbatim>\<open>urllib.parse.urlparse\<close> is written out: the scheme up to the first colon (when it
  starts with a letter and consists of scheme characters), the network location after
  \<^verbatim>\<open>//\<close> up to the first of \<^verbatim>\<open>/ ? #\<close>, the fragment after the first \<^verbatim>\<open>#\<close>, the query
  after the first \<^verbatim>\<open>?\<close>, and the parameters after the first \<^verbatim>\<open>;\<close> of the last path
  segment. It describes the library on URLs of printable ASCII characters without
  spaces and square brackets, where the library neither strips characters nor raises;
  it is used for examples only, every general statement below holds for any parser.
\<close>

definition is_ascii_alpha :: "char \<Rightarrow> bool" where
  "is_ascii_alpha c =
     ((65 \<le> (of_char c :: nat) \<and> (of_char c :: nat) \<le> 90) \<or>
      (97 \<le> (of_char c :: nat) \<and> (of_char c :: nat) \<le> 122))"

definition is_scheme_char :: "char \<Rightarrow> bool" where
  "is_scheme_char c =
     (is_ascii_alpha c \<or> (48 \<le> (of_char c :: nat) \<and> (of_char c :: nat) \<le> 57) \<or>
      c \<in> set ''+-.'')"

definition lower_char :: "char \<Rightarrow> char" where
  "lower_char c =
     (if 65 \<le> (of_char c :: nat) \<and> (of_char c :: nat) \<le> 90
      then char_of ((of_char c :: nat) + 32) else c)"

text \<open>\<^verbatim>\<open>s.split(d, 1)\<close> when \<open>d\<close> occurs in \<open>s\<close>; \<open>(s, '')\<close> when it does not.\<close>

definition partition_at :: "char \<Rightarrow> string \<Rightarrow> string \<times> string" where
  "partition_at d s = (takeWhile (\<lambda>c. c \<noteq> d) s, drop 1 (dropWhile (\<lambda>c. c \<noteq> d) s))"

definition split_scheme :: "string \<Rightarrow> string \<times> string" where
  "split_scheme url =
     (let pre = takeWhile (\<lambda>c. c \<noteq> CHR '':'') url
      in if CHR '':'' \<in> set url \<and> pre \<noteq> [] \<and> is_ascii_alpha (hd url) \<and>
            list_all is_scheme_char pre
         then (map lower_char pre, drop (length pre + 1) url)
         else ([], url))"

definition splitnetloc :: "string \<Rightarrow> string \<times> string" where
  "splitnetloc url =
     (if take 2 url = ''//''
      then (takeWhile (\<lambda>c. c \<notin> set ''/?#'') (drop 2 url),
            dropWhile (\<lambda>c. c \<notin> set ''/?#'') (drop 2 url))
      else ([], url))"

definition uses_params :: "string list" where
  "uses_params = ['''', ''ftp'', ''hdl'', ''prospero'', ''http'', ''imap'', ''https'', ''shttp'',
                  ''rtsp'', ''rtspu'', ''sip'', ''sips'', ''mms'', ''sftp'', ''tel'']"

definition splitparams :: "string \<Rightarrow> string \<times> string" where
  "splitparams url =
     (let last_seg = rev (takeWhile (\<lambda>c. c \<noteq> CHR ''/'') (rev url));
          before = take (length url - length last_seg) url
      in if CHR '';'' \<in> set last_seg
         then (before @ takeWhile (\<lambda>c. c \<noteq> CHR '';'') last_seg,
               drop 1 (dropWhile (\<lambda>c. c \<noteq> CHR '';'') last_seg))
         else (url, []))"

definition urlparse :: "string \<Rightarrow> parse_result" where
  "urlparse url0 =
     (let (sch, url1) = split_scheme url0;
          (nl, url2) = splitnetloc url1;
          (url3, frag) = partition_at CHR ''#'' url2;
          (url4, qu) = partition_at CHR ''?'' url3;
          (p, pa) = (if sch \<in> set uses_params \<and> CHR '';'' \<in> set url4
                     then splitparams url4 else (url4, []))
      in \<lparr>scheme = sch, netloc = nl, path = p, params = pa, query = qu, fragment = frag\<rparr>)"

subsection \<open>Strings and the parsed document\<close>

text \<open>
  The tree that \<^verbatim>\<open>BeautifulSoup(html, 'html.parser')\<close> returns: a text node
  (\<^verbatim>\<open>NavigableString\<close>) or an element (\<^verbatim>\<open>Tag\<close>) with its name, its attributes
  (the items of the \<^verbatim>\<open>attrs\<close> dictionary, the value of \<^verbatim>\<open>class\<close> kept as written)
  and its children. The \<^verbatim>\<open>BeautifulSoup\<close> object itself is the element named
  \<^verbatim>\<open>[document]\<close> at the root. Comments are not represented.
\<close>

datatype node = NavigableString string | Tag string "(string \<times> string) list" "node list"

text \<open>
  The code points below 256 that Python counts as whitespace, for \<^verbatim>\<open>\s\<close> in a
  regular expression on \<^verbatim>\<open>str\<close> as for \<^verbatim>\<open>str.strip\<close> and \<^verbatim>\<open>str.split\<close>.
\<close>

definition is_space :: "char \<Rightarrow> bool" where
  "is_space c = ((of_char c :: nat) \<in> set [9, 10, 11, 12, 13, 28, 29, 30, 31, 32, 133, 160])"

text \<open>\<^verbatim>\<open>re.sub(r'\s+', ' ', text)\<close>: every maximal run of whitespace becomes one space.\<close>

fun collapse_whitespace :: "string \<Rightarrow> string" where
  "collapse_whitespace [] = []"
| "collapse_whitespace [c] = [if is_space c then CHR '' '' else c]"
| "collapse_whitespace (c # d # cs) =
     (if is_space c
      then (if is_space d then collapse_whitespace (d # cs)
            else CHR '' '' # collapse_whitespace (d # cs))
      else c # collapse_whitespace (d # cs))"

definition lstrip :: "string \<Rightarrow> string" where
  "lstrip s = dropWhile is_space s"

definition rstrip :: "string \<Rightarrow> string" where
  "rstrip s = rev (dropWhile is_space (rev s))"

definition strip :: "string \<Rightarrow> string" where
  "strip s = lstrip (rstrip s)"

text \<open>\<^verbatim>\<open>s.rstrip(chars)\<close>.\<close>

definition rstrip_chars :: "string \<Rightarrow> string \<Rightarrow> string" where
  "rstrip_chars chars s = rev (dropWhile (\<lambda>c. c \<in> set chars) (rev s))"

text \<open>\<^verbatim>\<open>clean_text(text)\<close>, lines 64 to 68.\<close>

definition clean_text :: "string \<Rightarrow> string" where
  "clean_text text = strip (collapse_whitespace text)"

text \<open>\<^verbatim>\<open>s.split()\<close>: the maximal runs of characters that are not whitespace.\<close>

fun split_from :: "string \<Rightarrow> string \<Rightarrow> string list" where
  "split_from w [] = (if w = [] then [] else [w])"
| "split_from w (c # cs) =
     (if is_space c then (if w = [] then split_from [] cs else w # split_from [] cs)
      else split_from (w @ [c]) cs)"

definition split :: "string \<Rightarrow> string list" where
  "split s = split_from [] s"

text \<open>\<^verbatim>\<open>sep.join(xs)\<close>.\<close>

fun join :: "string \<Rightarrow> string list \<Rightarrow> string" where
  "join sep [] = []"
| "join sep [x] = x"
| "join sep (x # y # ys) = x @ sep @ join sep (y # ys)"

text \<open>\<^verbatim>\<open>str(n)\<close> for a natural number, as the f-string of the instructions formats it.\<close>

function str_of_nat :: "nat \<Rightarrow> string" where
  "str_of_nat n =
     (if n < 10 then [char_of (48 + n)]
      else str_of_nat (n div 10) @ [char_of (48 + n mod 10)])"
  by pat_completeness auto
termination
  by (relation "measure id") auto

text \<open>All nodes below a node, in document order (the node itself is not among them).\<close>

fun descendants :: "node \<Rightarrow> node list" where
  "descendants (NavigableString s) = []"
| "descendants (Tag name attrs contents) = concat (map (\<lambda>c. c # descendants c) contents)"

text \<open>\<^verbatim>\<open>tag.get_text()\<close>: the strings below the tag, concatenated.\<close>

fun get_text :: "node \<Rightarrow> string" where
  "get_text (NavigableString s) = s"
| "get_text (Tag name attrs contents) = concat (map get_text contents)"

text \<open>
  \<^verbatim>\<open>tag.string\<close>: the string of a tag whose only child is a string, or whose only child
  is a tag that has a \<^verbatim>\<open>.string\<close>; \<^verbatim>\<open>None\<close> for a tag with no child or with several.
\<close>

fun string_of :: "node \<Rightarrow> string option" where
  "string_of (NavigableString s) = Some s"
| "string_of (Tag name attrs [child]) = string_of child"
| "string_of (Tag name attrs contents) = None"

fun tag_named :: "string list \<Rightarrow> node \<Rightarrow> bool" where
  "tag_named names (NavigableString s) = False"
| "tag_named names (Tag name attrs contents) = (name \<in> set names)"

text \<open>\<^verbatim>\<open>root.find_all([names])\<close>, and \<^verbatim>\<open>soup.title\<close> / \<^verbatim>\<open>soup.body\<close> (the first tag of that name).\<close>

definition find_all :: "string list \<Rightarrow> node \<Rightarrow> node list" where
  "find_all names root = filter (tag_named names) (descendants root)"

definition find_first :: "string \<Rightarrow> node \<Rightarrow> node option" where
  "find_first name root =
     (case find_all [name] root of [] \<Rightarrow> None | t # _ \<Rightarrow> Some t)"

text \<open>
  The CSS selectors the script uses are comma-separated lists of a tag name, a class
  (\<^verbatim>\<open>.c\<close>), an id (\<^verbatim>\<open>#i\<close>) or a tag with an attribute value (\<^verbatim>\<open>t[a="v"]\<close>).
  \<^verbatim>\<open>select\<close> returns the matching descendants in document order, \<^verbatim>\<open>select_one\<close> the
  first of them or \<^verbatim>\<open>None\<close>.
\<close>

datatype simple_selector =
  ByTag string | ByClass string | ById string | ByTagAttr string string string

fun matches :: "simple_selector \<Rightarrow> node \<Rightarrow> bool" where
  "matches sel (NavigableString s) = False"
| "matches (ByTag t) (Tag name attrs contents) = (name = t)"
| "matches (ByClass c) (Tag name attrs contents) =
     (case map_of attrs ''class'' of None \<Rightarrow> False | Some v \<Rightarrow> c \<in> set (split v))"
| "matches (ById i) (Tag name attrs contents) = (map_of attrs ''id'' = Some i)"
| "matches (ByTagAttr t a v) (Tag name attrs contents) = (name = t \<and> map_of attrs a = Some v)"

definition matches_any :: "simple_selector list \<Rightarrow> node \<Rightarrow> bool" where
  "matches_any sels n = list_ex (\<lambda>sel. matches sel n) sels"

definition select :: "simple_selector list \<Rightarrow> node \<Rightarrow> node list" where
  "select sels root = filter (matches_any sels) (descendants root)"

definition select_one :: "simple_selector list \<Rightarrow> node \<Rightarrow> node option" where
  "select_one sels root = (case select sels root of [] \<Rightarrow> None | t # _ \<Rightarrow> Some t)"

text \<open>
  \<^verbatim>\<open>for element in soup.select(selector): element.decompose()\<close>: every matching
  element leaves the tree with all that is below it.
\<close>

fun decompose_all :: "simple_selector list \<Rightarrow> node \<Rightarrow> node" where
  "decompose_all sels (NavigableString s) = NavigableString s"
| "decompose_all sels (Tag name attrs contents) =
     Tag name attrs
       (map (decompose_all sels) (filter (\<lambda>c. \<not> matches_any sels c) contents))"

subsection \<open>The content extractor: \<^verbatim>\<open>extract_meaningful_content\<close>\<close>

definition boilerplate_selectors :: "simple_selector list" where
  "boilerplate_selectors =
     [ByTag ''header'', ByTag ''footer'', ByTag ''nav'', ByTag ''aside'', ByTag ''script'',
      ByTag ''style'', ByClass ''cookie-banner'', ByClass ''site-header'',
      ByClass ''site-footer'', ByClass ''navigation'', ByClass ''sidebar'']"

definition remove_boilerplate :: "node \<Rightarrow> node" where
  "remove_boilerplate soup = foldl (\<lambda>t selector. decompose_all [selector] t) soup boilerplate_selectors"

definition main_content_selectors :: "simple_selector list" where
  "main_content_selectors =
     [ByTag ''main'', ByTag ''article'', ByClass ''main-content'', ByClass ''page-content'',
      ByClass ''recipe-details'', ByClass ''product-description'']"

text \<open>
  Lines 75 and 76: \<^verbatim>\<open>soup.title.string if soup.title else "No Title"\<close>, then
  \<^verbatim>\<open>clean_text\<close>. A tag is always truthy, so the test asks whether a title element
  exists. Its \<^verbatim>\<open>.string\<close> may still be \<^verbatim>\<open>None\<close>; then \<^verbatim>\<open>re.sub\<close> inside
  \<^verbatim>\<open>clean_text\<close> raises \<^verbatim>\<open>TypeError\<close>.
\<close>

definition extract_title :: "node \<Rightarrow> error + string" where
  "extract_title soup =
     (case find_first ''title'' soup of
        None \<Rightarrow> Inr (clean_text ''No Title'')
      | Some title_tag \<Rightarrow>
          (case string_of title_tag of
             None \<Rightarrow> Inl TypeError
           | Some s \<Rightarrow> Inr (clean_text s)))"

text \<open>Lines 98 to 101: headings, paragraphs and list items of more than three words.\<close>

definition general_texts :: "node \<Rightarrow> string list" where
  "general_texts content_area =
     filter (\<lambda>text. text \<noteq> [] \<and> 3 < length (split text))
       (map (\<lambda>tag. clean_text (get_text tag))
          (find_all [''h1'', ''h2'', ''h3'', ''h4'', ''h5'', ''h6'', ''p'', ''li''] content_area))"

text \<open>
  Lines 105 to 111. The loop appends the cleaned text of every item followed by
  \<^verbatim>\<open>"; "\<close>, whether or not that text is empty.
\<close>

definition ingredients_text_of :: "node list \<Rightarrow> string" where
  "ingredients_text_of items =
     foldl (\<lambda>ingredients_text item. ingredients_text @ clean_text (get_text item) @ ''; '')
       ''Ingredients: '' items"

definition ingredients_texts :: "node \<Rightarrow> string list" where
  "ingredients_texts content_area =
     (case select_one [ByClass ''recipe-ingredients'', ByClass ''ingredients-list'',
                       ById ''ingredients''] content_area of
        None \<Rightarrow> []
      | Some ingredients_section \<Rightarrow>
          (let ingredients_text = ingredients_text_of (find_all [''li'', ''p''] ingredients_section)
           in if length ingredients_text > length ''Ingredients: ''
              then [rstrip_chars '';'' (strip ingredients_text)] else []))"

text \<open>Lines 114 to 124. Here an item whose cleaned text is empty is skipped.\<close>

definition instructions_text_of :: "node list \<Rightarrow> string \<times> nat" where
  "instructions_text_of items =
     foldl (\<lambda>(instructions_text, step_count) item.
              (let step_text = clean_text (get_text item)
               in if step_text \<noteq> []
                  then (instructions_text @ str_of_nat step_count @ ''. '' @ step_text @ '' '',
                        step_count + 1)
                  else (instructions_text, step_count)))
       (''Instructions: '', 1) items"

definition instructions_texts :: "node \<Rightarrow> string list" where
  "instructions_texts content_area =
     (case select_one [ByClass ''recipe-instructions'', ByClass ''method-list'',
                       ById ''instructions'', ById ''method''] content_area of
        None \<Rightarrow> []
      | Some instructions_section \<Rightarrow>
          (let instructions_text = fst (instructions_text_of (find_all [''li'', ''p''] instructions_section))
           in if length instructions_text > length ''Instructions: ''
              then [strip instructions_text] else []))"

text \<open>Lines 127 to 129.\<close>

definition product_texts :: "node \<Rightarrow> string list" where
  "product_texts content_area =
     (case select_one [ByClass ''product-description'', ByClass ''description''] content_area of
        None \<Rightarrow> []
      | Some product_desc_el \<Rightarrow> [''Product Description: '' @ clean_text (get_text product_desc_el)])"

text \<open>
  Lines 131 to 139. A row contributes when it has a cell (the list \<^verbatim>\<open>cells\<close> is not
  empty), whatever the cells' texts are.
\<close>

definition nutrition_text_of :: "node list \<Rightarrow> string" where
  "nutrition_text_of rows =
     foldl (\<lambda>nutrition_text row.
              (let cells = map (\<lambda>cell. clean_text (get_text cell)) (find_all [''td'', ''th''] row)
               in if cells \<noteq> [] then nutrition_text @ join '' | '' cells @ ''; ''
                  else nutrition_text))
       ''Nutritional Information: '' rows"

definition nutrition_texts :: "node \<Rightarrow> string list" where
  "nutrition_texts content_area =
     (case select_one [ByClass ''nutrition-facts'', ByClass ''nutrition-table'',
                       ByTagAttr ''table'' ''summary'' ''Nutrition Information''] content_area of
        None \<Rightarrow> []
      | Some nutrition_table \<Rightarrow>
          (let nutrition_text = nutrition_text_of (find_all [''tr''] nutrition_table)
           in if length nutrition_text > length ''Nutritional Information: ''
              then [rstrip_chars '';'' (strip nutrition_text)] else []))"

text \<open>What one content area appends to \<^verbatim>\<open>extracted_texts\<close>, in the order of the loop body.\<close>

definition area_texts :: "node \<Rightarrow> string list" where
  "area_texts content_area =
     general_texts content_area @ ingredients_texts content_area @
     instructions_texts content_area @ product_texts content_area @
     nutrition_texts content_area"

definition main_content_elements :: "node \<Rightarrow> node list" where
  "main_content_elements soup =
     (case select main_content_selectors soup of
        [] \<Rightarrow> (case find_first ''body'' soup of None \<Rightarrow> [] | Some body \<Rightarrow> [body])
      | t # ts \<Rightarrow> t # ts)"

text \<open>
  \<^verbatim>\<open>extract_meaningful_content(soup, url)\<close>: the title, or the exception raised while
  computing it; then the texts of all content areas of the tree without its
  boilerplate, joined by newlines.
\<close>

definition extract_meaningful_content :: "node \<Rightarrow> string \<Rightarrow> error + (string \<times> string)" where
  "extract_meaningful_content soup url =
     (case extract_title soup of
        Inl e \<Rightarrow> Inl e
      | Inr title \<Rightarrow>
          (let extracted_texts = concat (map area_texts (main_content_elements (remove_boilerplate soup)))
           in Inr (title, join ''\<newline>'' extracted_texts)))"

subsection \<open>Link discovery: \<^verbatim>\<open>extract_links\<close>\<close>

text \<open>
  The library functions the script calls, as one record: \<^verbatim>\<open>urlparse\<close> and
  \<^verbatim>\<open>urljoin\<close> of \<^verbatim>\<open>urllib.parse\<close>, the HTML parser
  \<^verbatim>\<open>BeautifulSoup(html, 'html.parser')\<close>, the order in which \<^verbatim>\<open>list(s)\<close>
  enumerates a \<^verbatim>\<open>set\<close> of strings (given as a function of the sequence of
  \<^verbatim>\<open>add\<close> calls that built the set), and the text splitter. Python does not
  define the iteration order of a set; in CPython it follows the hash values of the
  strings, which are salted per interpreter process, so the order is a parameter of
  the run and not a function of the set alone. The library functions are total
  here: an exception raised inside a library call is not modelled.
\<close>

record lib =
  lib_urlparse :: "string \<Rightarrow> parse_result"
  lib_urljoin :: "string \<Rightarrow> string \<Rightarrow> string"
  lib_BeautifulSoup :: "string \<Rightarrow> node"
  lib_list_of_set :: "string list \<Rightarrow> string list"
  lib_create_documents :: "string \<Rightarrow> string list"

text \<open>
  What the runtime guarantees of \<^verbatim>\<open>list(s)\<close>: every element of the set once,
  and nothing else.
\<close>

definition enumerates_set :: "(string list \<Rightarrow> string list) \<Rightarrow> bool" where
  "enumerates_set list_of_set =
     (\<forall>adds. set (list_of_set adds) = set adds \<and> distinct (list_of_set adds))"

text \<open>\<^verbatim>\<open>soup.find_all('a', href=True)\<close> and \<^verbatim>\<open>a_tag['href']\<close> of each tag found.\<close>

fun a_href :: "node \<Rightarrow> string option" where
  "a_href (NavigableString s) = None"
| "a_href (Tag name attrs contents) = (if name = ''a'' then map_of attrs ''href'' else None)"

definition find_all_a_href :: "node \<Rightarrow> string list" where
  "find_all_a_href soup = List.map_filter a_href (descendants soup)"

text \<open>
  The arguments of the successive \<^verbatim>\<open>links.add(...)\<close> calls of the loop: the
  absolute link is tested, its part before the first \<^verbatim>\<open>#\<close> is added.
\<close>

definition links_added :: "lib \<Rightarrow> string \<Rightarrow> string \<Rightarrow> string list" where
  "links_added lib html_content current_url =
     map (takeWhile (\<lambda>c. c \<noteq> CHR ''#''))
       (filter (is_valid_url (lib_urlparse lib))
          (map (lib_urljoin lib current_url)
             (find_all_a_href (lib_BeautifulSoup lib html_content))))"

definition extract_links :: "lib \<Rightarrow> string \<Rightarrow> string \<Rightarrow> string list" where
  "extract_links lib html_content current_url =
     lib_list_of_set lib (links_added lib html_content current_url)"

subsection \<open>The crawl loop of \<^verbatim>\<open>main\<close>\<close>

definition REQUEST_DELAY :: nat where
  "REQUEST_DELAY = 1"

definition MAX_PAGES_TO_SCRAPE :: nat where
  "MAX_PAGES_TO_SCRAPE = 50"

text \<open>
  The effects of the loop that the properties below speak about, logged in program order: a
  call of \<^verbatim>\<open>fetch_page\<close> with its result, a call of \<^verbatim>\<open>time.sleep\<close> with its
  argument, a pass through the \<^verbatim>\<open>continue\<close> branch for a URL already visited, and an
  \<^verbatim>\<open>urls_to_visit.append\<close>.
\<close>

datatype event =
  Fetched string "string option" | Slept nat | Skipped string | Enqueued string

text \<open>
  \<^verbatim>\<open>fetch_page(url)\<close>, lines 31 to 51. The network is outside the program:
  \<^verbatim>\<open>scraper.get(url, timeout=15)\<close> is a function of the state \<open>'w\<close> of the network
  and the URL that returns a response (status code and text), or nothing when the
  call raises (timeout, connection error), and the next state of the network; any
  behaviour of a server, also one that changes from call to call, is such a function.
  \<^verbatim>\<open>raise_for_status\<close> raises for the status codes 400 to 599; every exception is
  caught and turned into \<^verbatim>\<open>None\<close>.
\<close>

datatype response = Response nat string

definition fetch_page ::
  "('w \<Rightarrow> string \<Rightarrow> response option \<times> 'w) \<Rightarrow> 'w \<Rightarrow> string \<Rightarrow> string option \<times> 'w" where
  "fetch_page scraper_get w url =
     (case scraper_get w url of
        (None, w') \<Rightarrow> (None, w')
      | (Some (Response status_code text), w') \<Rightarrow>
          (if 400 \<le> status_code \<and> status_code < 600 then None else Some text, w'))"

text \<open>
  The variables of \<^verbatim>\<open>main\<close>, with the state of the network. The loop below takes
  the fetcher as a parameter \<open>fetch\<close>; \<^verbatim>\<open>main\<close> passes \<^const>\<open>fetch_page\<close>. The
  field \<open>effects\<close> is the log and is not read by the program.
\<close>

record 'w crawl_state =
  all_chunked_data :: "chunk list"
  urls_to_visit :: "string list"
  visited_urls :: "string set"
  pages_scraped_count :: nat
  world :: 'w
  effects :: "event list"

text \<open>How a run leaves the loop: by its condition, or by an exception that nothing catches.\<close>

datatype 'w outcome = Finished "'w crawl_state" | Raised error "'w crawl_state"

fun final_state :: "'w outcome \<Rightarrow> 'w crawl_state" where
  "final_state (Finished s) = s"
| "final_state (Raised e s) = s"

text \<open>Lines 216 to 218: the loop over \<^verbatim>\<open>new_links\<close>.\<close>

fun enqueue_links :: "string list \<Rightarrow> 'w crawl_state \<Rightarrow> 'w crawl_state" where
  "enqueue_links [] s = s"
| "enqueue_links (link # new_links) s =
     enqueue_links new_links
       (if link \<notin> visited_urls s \<and> link \<notin> set (urls_to_visit s)
        then s\<lparr>urls_to_visit := urls_to_visit s @ [link], effects := effects s @ [Enqueued link]\<rparr>
        else s)"

text \<open>
  Lines 198 to 212: parse, extract, chunk. The result is what the iteration appends to
  \<^verbatim>\<open>all_chunked_data\<close>; an exception of the extractor is not caught by \<^verbatim>\<open>main\<close>.
\<close>

definition page_chunks :: "lib \<Rightarrow> string \<Rightarrow> string \<Rightarrow> error + chunk list" where
  "page_chunks lib html_content current_url =
     (case extract_meaningful_content (lib_BeautifulSoup lib html_content) current_url of
        Inl e \<Rightarrow> Inl e
      | Inr (page_title, page_text_content) \<Rightarrow>
          Inr (if page_text_content \<noteq> []
               then chunk_page_content (lib_create_documents lib) page_title page_text_content
                      current_url
               else []))"

text \<open>
  One pass through the body of the \<^verbatim>\<open>while\<close> loop (lines 187 to 222).
  \<^verbatim>\<open>if html_content:\<close> is false for \<^verbatim>\<open>None\<close> and for the empty string alike. The
  call of \<^verbatim>\<open>time.sleep\<close> is the last statement of the branch for a non-empty page;
  the \<^verbatim>\<open>else\<close> branch only adds the URL to \<^verbatim>\<open>visited_urls\<close>.
\<close>

definition loop_body ::
  "lib \<Rightarrow> ('w \<Rightarrow> string \<Rightarrow> string option \<times> 'w) \<Rightarrow> 'w crawl_state
     \<Rightarrow> (error \<times> 'w crawl_state) + 'w crawl_state" where
  "loop_body lib fetch s =
     (case urls_to_visit s of
        [] \<Rightarrow> Inl (IndexError, s)
      | current_url # rest \<Rightarrow>
          (let s1 = s\<lparr>urls_to_visit := rest\<rparr>
           in if current_url \<in> visited_urls s1
              then Inr (s1\<lparr>effects := effects s1 @ [Skipped current_url]\<rparr>)
              else
                (let (html_content, w) = fetch (world s1) current_url;
                     s2 = s1\<lparr>world := w,
                             effects := effects s1 @ [Fetched current_url html_content]\<rparr>;
                     failed = s2\<lparr>visited_urls := insert current_url (visited_urls s2)\<rparr>
                 in case html_content of
                      None \<Rightarrow> Inr failed
                    | Some html \<Rightarrow>
                        if html = [] then Inr failed
                        else
                          (let s3 = s2\<lparr>visited_urls := insert current_url (visited_urls s2),
                                         pages_scraped_count := pages_scraped_count s2 + 1\<rparr>
                           in case page_chunks lib html current_url of
                                Inl e \<Rightarrow> Inl (e, s3)
                              | Inr chunks \<Rightarrow>
                                  (let s4 = s3\<lparr>all_chunked_data := all_chunked_data s3 @ chunks\<rparr>;
                                       s5 = enqueue_links (extract_links lib html current_url) s4
                                   in Inr (s5\<lparr>effects := effects s5 @ [Slept REQUEST_DELAY]\<rparr>))))))"

text \<open>
  The \<^verbatim>\<open>while\<close> loop. It ends because each pass either raises the page count,
  which the condition bounds by \<open>max_pages\<close>, or leaves the count as it is and
  shortens the queue by the URL it popped.
\<close>

function main_loop ::
  "lib \<Rightarrow> ('w \<Rightarrow> string \<Rightarrow> string option \<times> 'w) \<Rightarrow> nat \<Rightarrow> 'w crawl_state \<Rightarrow> 'w outcome" where
  "main_loop lib fetch max_pages s =
     (if urls_to_visit s \<noteq> [] \<and> pages_scraped_count s < max_pages
      then (case loop_body lib fetch s of
              Inl (e, s') \<Rightarrow> Raised e s'
            | Inr s' \<Rightarrow> main_loop lib fetch max_pages s')
      else Finished s)"
  by pat_completeness auto
termination
proof (relation "measures [\<lambda>(lib, fetch, max_pages, s). max_pages - pages_scraped_count s,
                           \<lambda>(lib, fetch, max_pages, s). length (urls_to_visit s)]")
  show "wf (measures [\<lambda>(lib, fetch, max_pages, s). max_pages - pages_scraped_count s,
                      \<lambda>(lib, fetch, max_pages, s :: 'w crawl_state). length (urls_to_visit s)])"
    by simp
next
  fix lib :: lib and fetch :: "'w \<Rightarrow> string \<Rightarrow> string option \<times> 'w"
    and max_pages :: nat and s s' :: "'w crawl_state"
  assume guard: "urls_to_visit s \<noteq> [] \<and> pages_scraped_count s < max_pages"
    and step: "loop_body lib fetch s = Inr s'"
  have count_enqueue: "pages_scraped_count (enqueue_links links t) = pages_scraped_count t"
    for links and t :: "'w crawl_state"
    by (induction links arbitrary: t) auto
  from guard obtain current_url rest where q: "urls_to_visit s = current_url # rest"
    by (cases "urls_to_visit s") auto
  from step q guard
  have "(pages_scraped_count s' = pages_scraped_count s + 1) \<or>
        (pages_scraped_count s' = pages_scraped_count s \<and> urls_to_visit s' = rest)"
    by (auto simp: loop_body_def Let_def count_enqueue
             split: prod.splits sum.splits if_splits option.splits)
  with guard q
  show "((lib, fetch, max_pages, s'), (lib, fetch, max_pages, s))
        \<in> measures [\<lambda>(lib, fetch, max_pages, s). max_pages - pages_scraped_count s,
                      \<lambda>(lib, fetch, max_pages, s). length (urls_to_visit s)]"
    by auto
qed

text \<open>
  The state before the first pass (lines 181 to 184, with the seed and the budget as
  parameters), the run from it, and \<^verbatim>\<open>main\<close> itself with the constants of the script.
  Creating the output directory, the console output and writing the JSON file are
  not modelled.
\<close>

definition initial_state :: "string \<Rightarrow> 'w \<Rightarrow> 'w crawl_state" where
  "initial_state seed w =
     \<lparr>all_chunked_data = [], urls_to_visit = [seed], visited_urls = {},
      pages_scraped_count = 0, world = w, effects = []\<rparr>"

definition crawl ::
  "lib \<Rightarrow> ('w \<Rightarrow> string \<Rightarrow> string option \<times> 'w) \<Rightarrow> nat \<Rightarrow> string \<Rightarrow> 'w \<Rightarrow> 'w outcome" where
  "crawl lib fetch max_pages seed w =
     main_loop lib fetch max_pages (initial_state seed w)"

definition main :: "lib \<Rightarrow> ('w \<Rightarrow> string \<Rightarrow> response option \<times> 'w) \<Rightarrow> 'w \<Rightarrow> 'w outcome" where
  "main lib scraper_get w = crawl lib (fetch_page scraper_get) MAX_PAGES_TO_SCRAPE BASE_URL w"

text \<open>
  The state at the head of the loop after \<open>n\<close> complete passes, when the run gets
  that far: \<^const>\<open>None\<close> when the loop has ended before.
\<close>

fun state_after ::
  "nat \<Rightarrow> lib \<Rightarrow> ('w \<Rightarrow> string \<Rightarrow> string option \<times> 'w) \<Rightarrow> nat \<Rightarrow> 'w crawl_state
     \<Rightarrow> 'w crawl_state option" where
  "state_after 0 lib fetch max_pages s = Some s"
| "state_after (Suc n) lib fetch max_pages s =
     (if urls_to_visit s \<noteq> [] \<and> pages_scraped_count s < max_pages
      then (case loop_body lib fetch s of
              Inl (e, s') \<Rightarrow> None
            | Inr s' \<Rightarrow> state_after n lib fetch max_pages s')
      else None)"

text \<open>Reading the log.\<close>

fun fetched_urls :: "event list \<Rightarrow> string list" where
  "fetched_urls [] = []"
| "fetched_urls (Fetched url r # evs) = url # fetched_urls evs"
| "fetched_urls (e # evs) = fetched_urls evs"

fun enqueued_urls :: "event list \<Rightarrow> string list" where
  "enqueued_urls [] = []"
| "enqueued_urls (Enqueued url # evs) = url # enqueued_urls evs"
| "enqueued_urls (e # evs) = enqueued_urls evs"

fun skipped_urls :: "event list \<Rightarrow> string list" where
  "skipped_urls [] = []"
| "skipped_urls (Skipped url # evs) = url # skipped_urls evs"
| "skipped_urls (e # evs) = skipped_urls evs"

text \<open>The fetches that the loop took as successful: a page text that is not empty.\<close>

fun successful_fetches :: "event list \<Rightarrow> nat" where
  "successful_fetches [] = 0"
| "successful_fetches (Fetched url (Some html) # evs) =
     (if html = [] then 0 else 1) + successful_fetches evs"
| "successful_fetches (e # evs) = successful_fetches evs"

text \<open>The equation of the loop is unfolded by hand, one pass at a time.\<close>

declare main_loop.simps [simp del]

text \<open>
  The invariant of the loop, for a run that started from the seed alone: the queue has
  no duplicates and shares no URL with the visited set; the seed and the URLs ever
  appended to the queue are all different and are exactly the URLs now queued or
  visited; the URLs fetched are all different and are exactly the visited ones; the
  \<^verbatim>\<open>continue\<close> branch has not been taken; the page count is the number of successful
  fetches and is within the budget.
\<close>

definition crawl_inv :: "nat \<Rightarrow> string \<Rightarrow> 'w crawl_state \<Rightarrow> bool" where
  "crawl_inv max_pages seed s =
     (distinct (urls_to_visit s) \<and>
      set (urls_to_visit s) \<inter> visited_urls s = {} \<and>
      distinct (seed # enqueued_urls (effects s)) \<and>
      set (seed # enqueued_urls (effects s)) = set (urls_to_visit s) \<union> visited_urls s \<and>
      distinct (fetched_urls (effects s)) \<and>
      set (fetched_urls (effects s)) = visited_urls s \<and>
      skipped_urls (effects s) = [] \<and>
      successful_fetches (effects s) = pages_scraped_count s \<and>
      pages_scraped_count s \<le> max_pages)"

subsection \<open>A small site for running the crawler\<close>

text \<open>
  Three URLs: the home page links to \<^verbatim>\<open>/a\<close> and \<^verbatim>\<open>/b\<close>, the request for
  \<^verbatim>\<open>/a\<close> is answered with status 404, \<^verbatim>\<open>/b\<close> is a page without links. The parser is given by its
  results on these pages (\<^verbatim>\<open>html.parser\<close> adds no \<^verbatim>\<open>html\<close> or \<^verbatim>\<open>body\<close> element
  to a fragment).
\<close>

definition page_home :: string where
  "page_home = ''<a href=https://www.madewithnestle.ca/a>A</a><a href=https://www.madewithnestle.ca/b>B</a>''"

definition page_b :: string where
  "page_b = ''<p>Thank you for visiting us</p>''"

definition demo_parse :: "string \<Rightarrow> node" where
  "demo_parse html =
     (if html = page_home
      then Tag ''[document]'' []
             [Tag ''a'' [(''href'', ''https://www.madewithnestle.ca/a'')] [NavigableString ''A''],
              Tag ''a'' [(''href'', ''https://www.madewithnestle.ca/b'')] [NavigableString ''B'']]
      else if html = page_b
      then Tag ''[document]'' [] [Tag ''p'' [] [NavigableString ''Thank you for visiting us'']]
      else Tag ''[document]'' [] [NavigableString html])"

text \<open>
  \<^verbatim>\<open>urljoin(base, url)\<close> when \<^verbatim>\<open>url\<close> is itself a full URL with scheme and host, as
  the links of the example pages are: the result is \<^verbatim>\<open>url\<close>.
\<close>

definition urljoin_absolute :: "string \<Rightarrow> string \<Rightarrow> string" where
  "urljoin_absolute base url = url"

text \<open>
  Two orders in which a set can be enumerated: by first insertion, and by last
  insertion backwards.
\<close>

definition first_seen_order :: "string list \<Rightarrow> string list" where
  "first_seen_order adds = rev (remdups (rev adds))"

definition reverse_order :: "string list \<Rightarrow> string list" where
  "reverse_order adds = remdups (rev adds)"

definition demo_lib :: lib where
  "demo_lib =
     \<lparr>lib_urlparse = urlparse, lib_urljoin = urljoin_absolute, lib_BeautifulSoup = demo_parse,
      lib_list_of_set = first_seen_order, lib_create_documents = pieces_of_three\<rparr>"

definition demo_get :: "unit \<Rightarrow> string \<Rightarrow> response option \<times> unit" where
  "demo_get w url =
     (if url = BASE_URL then (Some (Response 200 page_home), w)
      else if url = ''https://www.madewithnestle.ca/b'' then (Some (Response 200 page_b), w)
      else (Some (Response 404 ''Not Found''), w))"

definition demo_fetch :: "unit \<Rightarrow> string \<Rightarrow> string option \<times> unit" where
  "demo_fetch = fetch_page demo_get"

text \<open>A page whose title element is empty, and a site whose page \<^verbatim>\<open>/a\<close> is that page.\<close>

definition page_empty_title :: string where
  "page_empty_title = ''<title></title><p>Welcome to our new site</p>''"

definition soup_empty_title :: node where
  "soup_empty_title =
     Tag ''[document]'' []
       [Tag ''title'' [] [], Tag ''p'' [] [NavigableString ''Welcome to our new site'']]"

definition demo_parse2 :: "string \<Rightarrow> node" where
  "demo_parse2 html = (if html = page_empty_title then soup_empty_title else demo_parse html)"

definition demo_lib2 :: lib where
  "demo_lib2 = demo_lib\<lparr>lib_BeautifulSoup := demo_parse2\<rparr>"

definition demo_get2 :: "unit \<Rightarrow> string \<Rightarrow> response option \<times> unit" where
  "demo_get2 w url =
     (if url = ''https://www.madewithnestle.ca/a'' then (Some (Response 200 page_empty_title), w)
      else demo_get w url)"

text \<open>
  A recipe page whose ingredients list has one empty item and whose nutrition table has
  one row with one empty cell:
  \<^verbatim>\<open><title>Cake</title><main><ul class=ingredients-list><li> </li></ul>\<close>
  \<^verbatim>\<open><table class=nutrition-table><tr><td></td></tr></table></main>\<close>
\<close>

definition soup_empty_items :: node where
  "soup_empty_items =
     Tag ''[document]'' []
       [Tag ''title'' [] [NavigableString ''Cake''],
        Tag ''main'' []
          [Tag ''ul'' [(''class'', ''ingredients-list'')] [Tag ''li'' [] [NavigableString '' '']],
           Tag ''table'' [(''class'', ''nutrition-table'')] [Tag ''tr'' [] [Tag ''td'' [] []]]]]"

section \<open>Theorems\<close>

subsection \<open>The invariant of the crawl loop\<close>

lemma fetched_urls_append: "fetched_urls (a @ b) = fetched_urls a @ fetched_urls b"
  by (induction a rule: fetched_urls.induct) auto

lemma enqueued_urls_append: "enqueued_urls (a @ b) = enqueued_urls a @ enqueued_urls b"
  by (induction a rule: enqueued_urls.induct) auto

lemma skipped_urls_append: "skipped_urls (a @ b) = skipped_urls a @ skipped_urls b"
  by (induction a rule: skipped_urls.induct) auto

lemma successful_fetches_append:
  "successful_fetches (a @ b) = successful_fetches a + successful_fetches b"
  by (induction a rule: successful_fetches.induct) auto

lemma log_of_enqueued:
  "fetched_urls (map Enqueued new) = []" "enqueued_urls (map Enqueued new) = new"
  "skipped_urls (map Enqueued new) = []" "successful_fetches (map Enqueued new) = 0"
  by (induction new) auto

lemma enqueue_links_shape:
  "\<exists>new. enqueue_links links s =
           s\<lparr>urls_to_visit := urls_to_visit s @ new, effects := effects s @ map Enqueued new\<rparr> \<and>
         distinct new \<and> set new \<inter> (visited_urls s \<union> set (urls_to_visit s)) = {} \<and>
         set new \<subseteq> set links"
proof (induction links arbitrary: s)
  case Nil
  show ?case by (rule exI [of _ "[]"]) simp
next
  case (Cons link links)
  show ?case
  proof (cases "link \<notin> visited_urls s \<and> link \<notin> set (urls_to_visit s)")
    case True
    let ?t = "s\<lparr>urls_to_visit := urls_to_visit s @ [link], effects := effects s @ [Enqueued link]\<rparr>"
    from Cons.IH [of ?t] obtain new where
      eq: "enqueue_links links ?t =
             ?t\<lparr>urls_to_visit := urls_to_visit ?t @ new, effects := effects ?t @ map Enqueued new\<rparr>"
      and d: "distinct new"
      and disj: "set new \<inter> (visited_urls ?t \<union> set (urls_to_visit ?t)) = {}"
      and sub: "set new \<subseteq> set links"
      by blast
    show ?thesis
    proof (rule exI [of _ "link # new"], intro conjI)
      show "enqueue_links (link # links) s =
            s\<lparr>urls_to_visit := urls_to_visit s @ link # new,
              effects := effects s @ map Enqueued (link # new)\<rparr>"
        using True eq by simp
      show "distinct (link # new)" using d disj by auto
      show "set (link # new) \<inter> (visited_urls s \<union> set (urls_to_visit s)) = {}"
        using True disj by auto
      show "set (link # new) \<subseteq> set (link # links)" using sub by auto
    qed
  next
    case False
    from Cons.IH [of s] obtain new where
      eq: "enqueue_links links s =
             s\<lparr>urls_to_visit := urls_to_visit s @ new, effects := effects s @ map Enqueued new\<rparr>"
      and d: "distinct new"
      and disj: "set new \<inter> (visited_urls s \<union> set (urls_to_visit s)) = {}"
      and sub: "set new \<subseteq> set links"
      by blast
    show ?thesis
    proof (rule exI [of _ new], intro conjI)
      show "enqueue_links (link # links) s =
            s\<lparr>urls_to_visit := urls_to_visit s @ new, effects := effects s @ map Enqueued new\<rparr>"
        using False eq by auto
      show "distinct new" by (rule d)
      show "set new \<inter> (visited_urls s \<union> set (urls_to_visit s)) = {}" by (rule disj)
      show "set new \<subseteq> set (link # links)" using sub by auto
    qed
  qed
qed

lemma page_chunks_error: "page_chunks lib html url = Inl e \<Longrightarrow> e = TypeError"
  by (auto simp: page_chunks_def extract_meaningful_content_def extract_title_def Let_def
           split: sum.splits option.splits prod.splits)

lemma crawl_inv_enqueue:
  assumes inv: "crawl_inv max_pages seed s"
  shows "crawl_inv max_pages seed (enqueue_links links s)"
proof -
  from enqueue_links_shape [of links s] obtain new where
    eq: "enqueue_links links s =
           s\<lparr>urls_to_visit := urls_to_visit s @ new, effects := effects s @ map Enqueued new\<rparr>"
    and d: "distinct new"
    and disj: "set new \<inter> (visited_urls s \<union> set (urls_to_visit s)) = {}"
    by blast
  from inv d disj show ?thesis
    unfolding eq crawl_inv_def
    by (simp add: fetched_urls_append enqueued_urls_append skipped_urls_append
          successful_fetches_append log_of_enqueued) blast
qed

lemma crawl_inv_body:
  assumes inv: "crawl_inv max_pages seed s"
    and guard: "urls_to_visit s \<noteq> [] \<and> pages_scraped_count s < max_pages"
  shows "case loop_body lib fetch s of
           Inl (e, s') \<Rightarrow> e = TypeError \<and> crawl_inv max_pages seed s'
         | Inr s' \<Rightarrow> crawl_inv max_pages seed s'"
proof -
  from guard obtain current_url rest where q: "urls_to_visit s = current_url # rest"
    by (cases "urls_to_visit s") auto
  from inv q have fresh: "current_url \<notin> visited_urls s" "current_url \<notin> set rest" "distinct rest"
    "set rest \<inter> visited_urls s = {}"
    by (auto simp: crawl_inv_def)
  obtain html_content w where f: "fetch (world s) current_url = (html_content, w)"
    by (cases "fetch (world s) current_url")
  let ?s2 = "s\<lparr>urls_to_visit := rest, world := w,
                effects := effects s @ [Fetched current_url html_content]\<rparr>"
  let ?failed = "?s2\<lparr>visited_urls := insert current_url (visited_urls ?s2)\<rparr>"
  have failed_inv: "crawl_inv max_pages seed ?failed"
    if "html_content = None \<or> html_content = Some []"
    using inv q fresh that
    by (auto simp: crawl_inv_def fetched_urls_append enqueued_urls_append skipped_urls_append
          successful_fetches_append)
  let ?s3 = "?s2\<lparr>visited_urls := insert current_url (visited_urls ?s2),
                  pages_scraped_count := pages_scraped_count ?s2 + 1\<rparr>"
  have s3_inv: "crawl_inv max_pages seed ?s3"
    if "html_content = Some html" "html \<noteq> []" for html
    using inv q fresh that guard
    by (auto simp: crawl_inv_def fetched_urls_append enqueued_urls_append skipped_urls_append
          successful_fetches_append)
  show ?thesis
  proof (cases html_content)
    case None
    with failed_inv q fresh f show ?thesis
      by (simp add: loop_body_def Let_def)
  next
    case (Some html)
    show ?thesis
    proof (cases "html = []")
      case True
      with Some failed_inv q fresh f show ?thesis
        by (simp add: loop_body_def Let_def)
    next
      case False
      note s3 = s3_inv [OF Some False]
      show ?thesis
      proof (cases "page_chunks lib html current_url")
        case (Inl e)
        with Some False q fresh f s3 page_chunks_error [OF Inl] show ?thesis
          by (simp add: loop_body_def Let_def)
      next
        case (Inr chunks)
        let ?s4 = "?s3\<lparr>all_chunked_data := all_chunked_data ?s3 @ chunks\<rparr>"
        have "crawl_inv max_pages seed ?s4"
          using s3 by (simp add: crawl_inv_def)
        then have "crawl_inv max_pages seed (enqueue_links (extract_links lib html current_url) ?s4)"
          by (rule crawl_inv_enqueue)
        then have "crawl_inv max_pages seed
                     ((enqueue_links (extract_links lib html current_url) ?s4)
                        \<lparr>effects := effects (enqueue_links (extract_links lib html current_url) ?s4)
                                      @ [Slept REQUEST_DELAY]\<rparr>)"
          by (simp add: crawl_inv_def fetched_urls_append enqueued_urls_append skipped_urls_append
                successful_fetches_append)
        with Some False q fresh f Inr show ?thesis
          by (simp add: loop_body_def Let_def)
      qed
    qed
  qed
qed

lemma crawl_inv_initial: "crawl_inv max_pages seed (initial_state seed w)"
  by (simp add: crawl_inv_def initial_state_def)

lemma crawl_inv_main_loop:
  "crawl_inv max_pages seed s \<Longrightarrow>
   crawl_inv max_pages seed (final_state (main_loop lib fetch max_pages s))"
proof (induction lib fetch max_pages s rule: main_loop.induct)
  case (1 lib fetch max_pages s)
  show ?case
  proof (cases "urls_to_visit s \<noteq> [] \<and> pages_scraped_count s < max_pages")
    case False
    then have "main_loop lib fetch max_pages s = Finished s"
      by (subst main_loop.simps) auto
    with "1.prems" show ?thesis by simp
  next
    case True
    note body = crawl_inv_body [OF "1.prems" True, of lib fetch]
    show ?thesis
    proof (cases "loop_body lib fetch s")
      case (Inl p)
      obtain e s' where p: "p = (e, s')" by (cases p)
      from True Inl p have "main_loop lib fetch max_pages s = Raised e s'"
        by (subst main_loop.simps) simp
      with body Inl p show ?thesis by simp
    next
      case (Inr s')
      with body have "crawl_inv max_pages seed s'" by simp
      from "1.IH" [OF True Inr this]
      have "crawl_inv max_pages seed (final_state (main_loop lib fetch max_pages s'))" .
      moreover from True Inr
      have "main_loop lib fetch max_pages s = main_loop lib fetch max_pages s'"
        by (subst main_loop.simps) simp
      ultimately show ?thesis by simp
    qed
  qed
qed

lemma crawl_inv_state_after:
  "crawl_inv max_pages seed s \<Longrightarrow> state_after n lib fetch max_pages s = Some t \<Longrightarrow>
   crawl_inv max_pages seed t"
proof (induction n arbitrary: s)
  case 0
  then show ?case by simp
next
  case (Suc n)
  from Suc.prems(2) have guard: "urls_to_visit s \<noteq> [] \<and> pages_scraped_count s < max_pages"
    by (simp split: if_splits)
  from Suc.prems(2) guard obtain s' where
    b: "loop_body lib fetch s = Inr s'" and r: "state_after n lib fetch max_pages s' = Some t"
    by (auto split: sum.splits prod.splits)
  from crawl_inv_body [OF Suc.prems(1) guard, of lib fetch] b
  have "crawl_inv max_pages seed s'" by simp
  from Suc.IH [OF this r] show ?case .
qed

text \<open>A pass whose fetch fails or returns the empty text: nothing is logged after the fetch.\<close>

lemma loop_body_failed_fetch:
  assumes "urls_to_visit s = current_url # rest"
    and "current_url \<notin> visited_urls s"
    and "fetch (world s) current_url = (r, w)"
    and "r = None \<or> r = Some []"
  shows "loop_body lib fetch s =
         Inr (s\<lparr>urls_to_visit := rest, world := w,
                effects := effects s @ [Fetched current_url r],
                visited_urls := insert current_url (visited_urls s)\<rparr>)"
  using assms by (auto simp: loop_body_def Let_def)

subsection \<open>The crawl loop\<close>



text \<open>
  Claim C1. In every run of the crawl, for any library, fetcher, budget, seed and
  network: the URLs on which \<^verbatim>\<open>fetch_page\<close> was called are pairwise different (the
  fetcher is invoked at most once per URL); they are exactly the elements of the
  visited set, so every \<^verbatim>\<open>visited_urls.add\<close> added a new element; the seed and the
  URLs appended to the queue during the run are pairwise different, and they are
  exactly the URLs queued or visited at the end. A URL that is in the queue or in the
  visited set has therefore been put in the queue before, and is not appended a
  second time. The statement is about the state in which the run ends, however it
  ends; the log it reads covers the whole run.
\<close>

theorem crawl_fetches_each_url_once:
  "distinct (fetched_urls (effects (final_state (crawl lib fetch max_pages seed w)))) \<and>
   visited_urls (final_state (crawl lib fetch max_pages seed w)) =
     set (fetched_urls (effects (final_state (crawl lib fetch max_pages seed w)))) \<and>
   distinct (seed # enqueued_urls (effects (final_state (crawl lib fetch max_pages seed w)))) \<and>
   set (seed # enqueued_urls (effects (final_state (crawl lib fetch max_pages seed w)))) =
     set (urls_to_visit (final_state (crawl lib fetch max_pages seed w))) \<union>
     visited_urls (final_state (crawl lib fetch max_pages seed w))"
proof -
  have "crawl_inv max_pages seed (final_state (crawl lib fetch max_pages seed w))"
    unfolding crawl_def by (rule crawl_inv_main_loop) (rule crawl_inv_initial)
  then show ?thesis
    unfolding crawl_inv_def by blast
qed

theorem crawl_fetches_each_url_once_witness:
  "fetched_urls (effects (final_state (crawl demo_lib demo_fetch 50 BASE_URL ()))) =
     [BASE_URL, ''https://www.madewithnestle.ca/a'', ''https://www.madewithnestle.ca/b''] \<and>
   distinct (fetched_urls (effects (final_state (crawl demo_lib demo_fetch 50 BASE_URL ())))) \<and>
   distinct (BASE_URL # enqueued_urls (effects (final_state (crawl demo_lib demo_fetch 50 BASE_URL ()))))"
proof -
  have ev: "fetched_urls (effects (final_state (crawl demo_lib demo_fetch 50 BASE_URL ()))) =
     [BASE_URL, ''https://www.madewithnestle.ca/a'', ''https://www.madewithnestle.ca/b'']"
    by code_simp
  from crawl_fetches_each_url_once [of demo_lib demo_fetch 50 BASE_URL "()"] ev
  show ?thesis by blast
qed



text \<open>
  Claim C10. In every state at the head of the loop that a run from the seed reaches,
  the queue has no duplicates and no URL of the visited set, and the
  \<^verbatim>\<open>continue\<close> branch for an already visited URL has not been taken so far; it has
  not been taken when the run ends either.
\<close>

theorem crawl_queue_invariant:
  "state_after n lib fetch max_pages (initial_state seed w) = Some s \<Longrightarrow>
   distinct (urls_to_visit s) \<and>
   set (urls_to_visit s) \<inter> visited_urls s = {} \<and>
   skipped_urls (effects s) = [] \<and>
   skipped_urls (effects (final_state (crawl lib fetch max_pages seed w))) = []"
proof -
  assume st: "state_after n lib fetch max_pages (initial_state seed w) = Some s"
  have "crawl_inv max_pages seed s"
    by (rule crawl_inv_state_after [OF crawl_inv_initial st])
  moreover have "crawl_inv max_pages seed (final_state (crawl lib fetch max_pages seed w))"
    unfolding crawl_def by (rule crawl_inv_main_loop) (rule crawl_inv_initial)
  ultimately show ?thesis
    unfolding crawl_inv_def by blast
qed

theorem crawl_queue_invariant_witness:
  "\<exists>s. state_after 1 demo_lib demo_fetch 50 (initial_state BASE_URL ()) = Some s \<and>
       urls_to_visit s = [''https://www.madewithnestle.ca/a'', ''https://www.madewithnestle.ca/b''] \<and>
       distinct (urls_to_visit s) \<and>
       set (urls_to_visit s) \<inter> visited_urls s = {} \<and>
       skipped_urls (effects s) = []"
proof -
  have "state_after 1 demo_lib demo_fetch 50 (initial_state BASE_URL ()) \<noteq> None"
    by code_simp
  then obtain s where st: "state_after 1 demo_lib demo_fetch 50 (initial_state BASE_URL ()) = Some s"
    by blast
  have "map_option urls_to_visit (state_after 1 demo_lib demo_fetch 50 (initial_state BASE_URL ()))
        = Some [''https://www.madewithnestle.ca/a'', ''https://www.madewithnestle.ca/b'']"
    by code_simp
  with st have q: "urls_to_visit s = [''https://www.madewithnestle.ca/a'', ''https://www.madewithnestle.ca/b'']"
    by simp
  from crawl_queue_invariant [OF st] st q show ?thesis by blast
qed

text \<open>
  Claim C3 says that the delay follows every fetch attempt, failed or not. The run of
  \<^verbatim>\<open>main\<close> on the example site shows what the code does: after the failed request
  for \<^verbatim>\<open>/a\<close> the next request, for \<^verbatim>\<open>/b\<close>, follows with no \<^verbatim>\<open>time.sleep\<close>
  between the two; only the fetches of non-empty pages are followed by the delay.
\<close>

theorem crawl_no_delay_after_failed_fetch:
  "effects (final_state (main demo_lib demo_get ())) =
     [Fetched BASE_URL (Some page_home),
      Enqueued ''https://www.madewithnestle.ca/a'',
      Enqueued ''https://www.madewithnestle.ca/b'',
      Slept REQUEST_DELAY,
      Fetched ''https://www.madewithnestle.ca/a'' None,
      Fetched ''https://www.madewithnestle.ca/b'' (Some page_b),
      Slept REQUEST_DELAY]"
  by code_simp

text \<open>
  The run that leaves the loop by the exception: on the site whose page \<^verbatim>\<open>/a\<close> has
  the empty title, \<^verbatim>\<open>main\<close> stops while \<^verbatim>\<open>/b\<close> is still queued and two of fifty
  pages are counted.
\<close>

lemma crawl_raises_on_empty_title:
  "main demo_lib2 demo_get2 () =
     Raised TypeError
       \<lparr>all_chunked_data = [],
        urls_to_visit = [''https://www.madewithnestle.ca/b''],
        visited_urls = {BASE_URL, ''https://www.madewithnestle.ca/a''},
        pages_scraped_count = 2, world = (),
        effects = [Fetched BASE_URL (Some page_home),
                   Enqueued ''https://www.madewithnestle.ca/a'',
                   Enqueued ''https://www.madewithnestle.ca/b'',
                   Slept REQUEST_DELAY,
                   Fetched ''https://www.madewithnestle.ca/a'' (Some page_empty_title)]\<rparr>"
  by code_simp

subsection \<open>Link discovery\<close>

lemma enumerates_first_seen: "enumerates_set first_seen_order"
  by (simp add: enumerates_set_def first_seen_order_def)

lemma enumerates_reverse: "enumerates_set reverse_order"
  by (simp add: enumerates_set_def reverse_order_def)

lemma links_added_order:
  "links_added (lib\<lparr>lib_list_of_set := order\<rparr>) html_content current_url =
   links_added lib html_content current_url"
  by (simp add: links_added_def)

text \<open>
  Claim C4, as the code has it. For a fixed page and URL the links that
  \<^verbatim>\<open>extract_links\<close> returns are determined as a set, and the list has no
  duplicates: under any two orders in which the runtime may enumerate a set, the
  lists have the same elements. The list itself is the runtime's enumeration of the
  set of added links: equal inputs give equal lists when the enumeration is the same
  (within one interpreter process), and the code does nothing to fix the order
  (no sorting, no first-seen order).
\<close>

theorem extract_links_same_set:
  "enumerates_set order1 \<Longrightarrow> enumerates_set order2 \<Longrightarrow>
   set (extract_links (lib\<lparr>lib_list_of_set := order1\<rparr>) html_content current_url) =
     set (extract_links (lib\<lparr>lib_list_of_set := order2\<rparr>) html_content current_url) \<and>
   distinct (extract_links (lib\<lparr>lib_list_of_set := order1\<rparr>) html_content current_url) \<and>
   extract_links (lib\<lparr>lib_list_of_set := order1\<rparr>) html_content current_url =
     order1 (links_added lib html_content current_url)"
  by (simp add: extract_links_def links_added_order enumerates_set_def)

theorem extract_links_same_set_witness:
  "enumerates_set first_seen_order \<and> enumerates_set reverse_order \<and>
   set (extract_links (demo_lib\<lparr>lib_list_of_set := first_seen_order\<rparr>) page_home BASE_URL) =
     set (extract_links (demo_lib\<lparr>lib_list_of_set := reverse_order\<rparr>) page_home BASE_URL) \<and>
   distinct (extract_links (demo_lib\<lparr>lib_list_of_set := first_seen_order\<rparr>) page_home BASE_URL) \<and>
   extract_links (demo_lib\<lparr>lib_list_of_set := first_seen_order\<rparr>) page_home BASE_URL =
     [''https://www.madewithnestle.ca/a'', ''https://www.madewithnestle.ca/b'']"
proof -
  have ev: "extract_links (demo_lib\<lparr>lib_list_of_set := first_seen_order\<rparr>) page_home BASE_URL =
     [''https://www.madewithnestle.ca/a'', ''https://www.madewithnestle.ca/b'']"
    by code_simp
  note inst = extract_links_same_set [OF enumerates_first_seen enumerates_reverse,
      of demo_lib page_home BASE_URL]
  from inst enumerates_first_seen enumerates_reverse ev
  show ?thesis by blast
qed

text \<open>
  The claim as first stated (the same list in the same order on every invocation,
  also across runs) fails: on the home page of the example site, an enumeration by
  first insertion and one by last insertion, both legitimate for \<^verbatim>\<open>list(set)\<close>,
  give the two links in opposite orders.
\<close>

theorem extract_links_order_counterexample:
  "enumerates_set first_seen_order \<and> enumerates_set reverse_order \<and>
   extract_links (demo_lib\<lparr>lib_list_of_set := first_seen_order\<rparr>) page_home BASE_URL =
     [''https://www.madewithnestle.ca/a'', ''https://www.madewithnestle.ca/b''] \<and>
   extract_links (demo_lib\<lparr>lib_list_of_set := reverse_order\<rparr>) page_home BASE_URL =
     [''https://www.madewithnestle.ca/b'', ''https://www.madewithnestle.ca/a''] \<and>
   extract_links (demo_lib\<lparr>lib_list_of_set := first_seen_order\<rparr>) page_home BASE_URL \<noteq>
     extract_links (demo_lib\<lparr>lib_list_of_set := reverse_order\<rparr>) page_home BASE_URL"
proof -
  have a: "extract_links (demo_lib\<lparr>lib_list_of_set := first_seen_order\<rparr>) page_home BASE_URL =
     [''https://www.madewithnestle.ca/a'', ''https://www.madewithnestle.ca/b'']"
    by code_simp
  have b: "extract_links (demo_lib\<lparr>lib_list_of_set := reverse_order\<rparr>) page_home BASE_URL =
     [''https://www.madewithnestle.ca/b'', ''https://www.madewithnestle.ca/a'']"
    by code_simp
  from a b enumerates_first_seen enumerates_reverse show ?thesis by simp
qed

subsection \<open>The content extractor\<close>

text \<open>
  The only whitespace character in a cleaned text is the space, and a cleaned text
  neither starts nor ends with one.
\<close>

lemma clean_text_whitespace:
  "c \<in> set (clean_text s) \<Longrightarrow> is_space c \<Longrightarrow> c = CHR '' ''"
proof -
  assume c: "c \<in> set (clean_text s)" and sp: "is_space c"
  have "set (clean_text s) \<subseteq> set (collapse_whitespace s)"
    unfolding clean_text_def strip_def lstrip_def rstrip_def
    by (metis set_dropWhileD set_rev subsetI)
  with c have "c \<in> set (collapse_whitespace s)" by blast
  with sp show ?thesis
    by (induction s rule: collapse_whitespace.induct) (auto split: if_splits)
qed

lemma strip_first: "strip s \<noteq> [] \<Longrightarrow> \<not> is_space (hd (strip s))"
  unfolding strip_def lstrip_def by (rule hd_dropWhile)

lemma strip_last: "strip s \<noteq> [] \<Longrightarrow> \<not> is_space (last (strip s))"
proof -
  assume ne: "strip s \<noteq> []"
  let ?r = "rstrip s"
  from ne have r_ne: "?r \<noteq> []"
    unfolding strip_def lstrip_def by auto
  have "strip s = drop (length (takeWhile is_space ?r)) ?r"
    unfolding strip_def lstrip_def by (rule dropWhile_eq_drop)
  moreover from ne this have "length (takeWhile is_space ?r) < length ?r"
    by (metis drop_all leI)
  ultimately have "last (strip s) = last ?r"
    by (simp add: last_drop)
  also have "last ?r = hd (dropWhile is_space (rev s))"
    unfolding rstrip_def using r_ne by (simp add: rstrip_def last_rev)
  finally have "last (strip s) = hd (dropWhile is_space (rev s))" .
  moreover from r_ne have "dropWhile is_space (rev s) \<noteq> []"
    unfolding rstrip_def by simp
  ultimately show ?thesis by (simp add: hd_dropWhile)
qed

lemma clean_text_trimmed:
  "clean_text s \<noteq> [] \<Longrightarrow>
   \<not> is_space (hd (clean_text s)) \<and> \<not> is_space (last (clean_text s))"
  unfolding clean_text_def by (simp add: strip_first strip_last)

lemma clean_text_No_Title: "clean_text ''No Title'' = ''No Title''"
  by code_simp

text \<open>
  When the extractor raises, and what the title is when it returns.
\<close>

lemma extract_meaningful_content_raises_iff:
  "(\<exists>e. extract_meaningful_content soup url = Inl e) \<longleftrightarrow>
   (\<exists>title_tag. find_first ''title'' soup = Some title_tag \<and> string_of title_tag = None)"
  by (auto simp: extract_meaningful_content_def extract_title_def Let_def
           split: option.splits sum.splits)

lemma extract_meaningful_content_title:
  "extract_meaningful_content soup url = Inr (title, body) \<Longrightarrow>
   (find_first ''title'' soup = None \<and> title = ''No Title'') \<or>
   (\<exists>title_tag s. find_first ''title'' soup = Some title_tag \<and> string_of title_tag = Some s \<and>
        title = clean_text s)"
  by (auto simp: extract_meaningful_content_def extract_title_def Let_def clean_text_No_Title
           split: option.splits sum.splits)

text \<open>
  When the two sections are emitted: the ingredients as soon as the container has an
  item, the nutrition table as soon as a row has a cell, whatever their texts are.
\<close>

lemma length_ingredients_foldl:
  "length (foldl (\<lambda>ingredients_text item. ingredients_text @ clean_text (get_text item) @ ''; '')
             acc items) \<ge> length acc + 2 * length items"
proof (induction items arbitrary: acc)
  case Nil
  show ?case by simp
next
  case (Cons item items)
  from Cons.IH [of "acc @ clean_text (get_text item) @ ''; ''"]
  show ?case by simp
qed

lemma ingredients_emitted_iff:
  assumes "select_one [ByClass ''recipe-ingredients'', ByClass ''ingredients-list'',
                       ById ''ingredients''] content_area = Some ingredients_section"
  shows "ingredients_texts content_area \<noteq> [] \<longleftrightarrow>
         find_all [''li'', ''p''] ingredients_section \<noteq> []"
proof (cases "find_all [''li'', ''p''] ingredients_section")
  case Nil
  with assms show ?thesis
    by (simp add: ingredients_texts_def ingredients_text_of_def)
next
  case (Cons item items)
  from length_ingredients_foldl [of "''Ingredients: ''" "item # items"]
  have "length (ingredients_text_of (item # items)) > length ''Ingredients: ''"
    unfolding ingredients_text_of_def by simp
  with assms Cons show ?thesis
    by (simp add: ingredients_texts_def Let_def)
qed

lemma length_nutrition_foldl:
  "length (foldl (\<lambda>nutrition_text row.
              (let cells = map (\<lambda>cell. clean_text (get_text cell)) (find_all [''td'', ''th''] row)
               in if cells \<noteq> [] then nutrition_text @ join '' | '' cells @ ''; ''
                  else nutrition_text)) acc rows)
   \<ge> length acc + 2 * length (filter (\<lambda>row. find_all [''td'', ''th''] row \<noteq> []) rows)"
proof (induction rows arbitrary: acc)
  case Nil
  show ?case by simp
next
  case (Cons row rows)
  show ?case
  proof (cases "find_all [''td'', ''th''] row = []")
    case True
    with Cons.IH [of acc] show ?thesis by simp
  next
    case False
    with Cons.IH [of "acc @ join '' | '' (map (\<lambda>cell. clean_text (get_text cell))
                        (find_all [''td'', ''th''] row)) @ ''; ''"]
    show ?thesis by (simp add: Let_def)
  qed
qed

lemma nutrition_foldl_no_cells:
  "list_all (\<lambda>row. find_all [''td'', ''th''] row = []) rows \<Longrightarrow> nutrition_text_of rows = ''Nutritional Information: ''"
  unfolding nutrition_text_of_def
  by (induction rows) (simp_all add: Let_def)

lemma nutrition_emitted_iff:
  assumes "select_one [ByClass ''nutrition-facts'', ByClass ''nutrition-table'',
                       ByTagAttr ''table'' ''summary'' ''Nutrition Information''] content_area
           = Some nutrition_table"
  shows "nutrition_texts content_area \<noteq> [] \<longleftrightarrow>
         list_ex (\<lambda>row. find_all [''td'', ''th''] row \<noteq> []) (find_all [''tr''] nutrition_table)"
proof (cases "list_ex (\<lambda>row. find_all [''td'', ''th''] row \<noteq> []) (find_all [''tr''] nutrition_table)")
  case False
  then have "list_all (\<lambda>row. find_all [''td'', ''th''] row = []) (find_all [''tr''] nutrition_table)"
    by (simp add: list_all_iff list_ex_iff)
  from nutrition_foldl_no_cells [OF this] assms False show ?thesis
    by (simp add: nutrition_texts_def)
next
  case True
  then have "filter (\<lambda>row. find_all [''td'', ''th''] row \<noteq> []) (find_all [''tr''] nutrition_table) \<noteq> []"
    by (auto simp: list_ex_iff filter_empty_conv)
  then have "length (filter (\<lambda>row. find_all [''td'', ''th''] row \<noteq> []) (find_all [''tr''] nutrition_table)) \<ge> 1"
    by (cases "filter (\<lambda>row. find_all [''td'', ''th''] row \<noteq> []) (find_all [''tr''] nutrition_table)") auto
  with length_nutrition_foldl [of "''Nutritional Information: ''" "find_all [''tr''] nutrition_table"]
  have "length (nutrition_text_of (find_all [''tr''] nutrition_table)) > length ''Nutritional Information: ''"
    unfolding nutrition_text_of_def by simp
  with assms True show ?thesis
    by (simp add: nutrition_texts_def Let_def)
qed

text \<open>
  Claim C8 says that extraction never raises and that the title is the normalised
  text of the title element when there is one. The document of the page
  \<^verbatim>\<open><title></title><p>Welcome to our new site</p>\<close> has a title element with no
  string; \<^verbatim>\<open>soup.title.string\<close> is \<^verbatim>\<open>None\<close> and \<^verbatim>\<open>clean_text(None)\<close> raises
  \<^verbatim>\<open>TypeError\<close>.
\<close>

theorem extract_title_raises_on_empty_title:
  "find_first ''title'' soup_empty_title = Some (Tag ''title'' [] []) \<and>
   extract_meaningful_content soup_empty_title ''https://www.madewithnestle.ca/a'' = Inl TypeError"
  by code_simp

text \<open>
  Claim C9 says that a container whose items all normalise to the empty text emits
  nothing. On the recipe page with one empty list item and one table row with an
  empty cell, the extractor emits the two bare prefixes \<^verbatim>\<open>"Ingredients: "\<close> and
  \<^verbatim>\<open>"Nutritional Information: "\<close>: the separator \<^verbatim>\<open>"; "\<close> appended for the empty
  item makes the text longer than the prefix, and \<^verbatim>\<open>strip\<close> and \<^verbatim>\<open>rstrip(';')\<close>
  then remove it again.
\<close>

theorem empty_items_emit_bare_prefix:
  "map (\<lambda>item. clean_text (get_text item))
     (find_all [''li'', ''p'']
        (Tag ''ul'' [(''class'', ''ingredients-list'')] [Tag ''li'' [] [NavigableString '' '']]))
     = [[]] \<and>
   extract_meaningful_content soup_empty_items ''https://www.madewithnestle.ca/cake'' =
     Inr (''Cake'', ''Ingredients: \<newline>Nutritional Information: '')"
  by code_simp

subsection \<open>The URL filter\<close>





subsection \<open>The chunker\<close>

lemma chunk_page_content_length:
  "page_text \<noteq> [] \<Longrightarrow>
   length (chunk_page_content create_documents title page_text url) = length (create_documents page_text)"
  by (simp add: chunk_page_content_def)

lemma chunk_page_content_nth:
  assumes "page_text \<noteq> []" and "i < length (create_documents page_text)"
  shows "chunk_page_content create_documents title page_text url ! i =
         \<lparr>chunk_url = url, chunk_title = title, chunk_id = i,
          chunk_text = create_documents page_text ! i\<rparr>"
  using assms by (simp add: chunk_page_content_def nth_enumerate_eq)

text \<open>
  Claim C7. For every title, body text and url: an empty body text gives the empty list
  of chunks (a value, not an error); otherwise there is one chunk per document of the
  splitter, the chunk at position \<open>i\<close> has \<^verbatim>\<open>chunk_id\<close> \<open>i\<close> (counted from 0), the
  title and the url are the ones supplied, and the text is the splitter's \<open>i\<close>-th piece.
\<close>

theorem chunk_page_content_ids:
  "chunk_page_content create_documents title [] url = [] \<and>
   (page_text \<noteq> [] \<longrightarrow>
      length (chunk_page_content create_documents title page_text url)
        = length (create_documents page_text) \<and>
      (\<forall>i < length (chunk_page_content create_documents title page_text url).
         chunk_id (chunk_page_content create_documents title page_text url ! i) = i \<and>
         chunk_title (chunk_page_content create_documents title page_text url ! i) = title \<and>
         chunk_url (chunk_page_content create_documents title page_text url ! i) = url \<and>
         chunk_text (chunk_page_content create_documents title page_text url ! i)
           = create_documents page_text ! i))"
proof -
  have empty: "chunk_page_content create_documents title [] url = []"
    by (simp add: chunk_page_content_def)
  have rest: "page_text \<noteq> [] \<longrightarrow>
      length (chunk_page_content create_documents title page_text url)
        = length (create_documents page_text) \<and>
      (\<forall>i < length (chunk_page_content create_documents title page_text url).
         chunk_id (chunk_page_content create_documents title page_text url ! i) = i \<and>
         chunk_title (chunk_page_content create_documents title page_text url ! i) = title \<and>
         chunk_url (chunk_page_content create_documents title page_text url ! i) = url \<and>
         chunk_text (chunk_page_content create_documents title page_text url ! i)
           = create_documents page_text ! i)"
  proof
    assume ne: "page_text \<noteq> []"
    show "length (chunk_page_content create_documents title page_text url)
        = length (create_documents page_text) \<and>
      (\<forall>i < length (chunk_page_content create_documents title page_text url).
         chunk_id (chunk_page_content create_documents title page_text url ! i) = i \<and>
         chunk_title (chunk_page_content create_documents title page_text url ! i) = title \<and>
         chunk_url (chunk_page_content create_documents title page_text url ! i) = url \<and>
         chunk_text (chunk_page_content create_documents title page_text url ! i)
           = create_documents page_text ! i)"
      using ne by (simp add: chunk_page_content_length chunk_page_content_nth)
  qed
  from empty rest show ?thesis by blast
qed

theorem chunk_page_content_ids_witness:
  "chunk_page_content pieces_of_three ''T'' [] ''u'' = [] \<and>
   chunk_page_content pieces_of_three ''T'' ''abcdefgh'' ''u'' =
     [\<lparr>chunk_url = ''u'', chunk_title = ''T'', chunk_id = 0, chunk_text = ''abc''\<rparr>,
      \<lparr>chunk_url = ''u'', chunk_title = ''T'', chunk_id = 1, chunk_text = ''def''\<rparr>,
      \<lparr>chunk_url = ''u'', chunk_title = ''T'', chunk_id = 2, chunk_text = ''gh''\<rparr>] \<and>
   chunk_id (chunk_page_content pieces_of_three ''T'' ''abcdefgh'' ''u'' ! 2) = 2 \<and>
   chunk_title (chunk_page_content pieces_of_three ''T'' ''abcdefgh'' ''u'' ! 2) = ''T'' \<and>
   chunk_url (chunk_page_content pieces_of_three ''T'' ''abcdefgh'' ''u'' ! 2) = ''u''"
proof -
  have ev: "chunk_page_content pieces_of_three ''T'' ''abcdefgh'' ''u'' =
     [\<lparr>chunk_url = ''u'', chunk_title = ''T'', chunk_id = 0, chunk_text = ''abc''\<rparr>,
      \<lparr>chunk_url = ''u'', chunk_title = ''T'', chunk_id = 1, chunk_text = ''def''\<rparr>,
      \<lparr>chunk_url = ''u'', chunk_title = ''T'', chunk_id = 2, chunk_text = ''gh''\<rparr>]"
    by (simp add: chunk_page_content_def enumerate_eq_zip upt_rec)
  have ne: "''abcdefgh'' \<noteq> []" by simp
  have len: "(2::nat) < length (chunk_page_content pieces_of_three ''T'' ''abcdefgh'' ''u'')"
    by (simp add: ev)
  from chunk_page_content_ids [of pieces_of_three "''T''" "''u''" "''abcdefgh''"] ne len
  have "chunk_page_content pieces_of_three ''T'' [] ''u'' = [] \<and>
        chunk_id (chunk_page_content pieces_of_three ''T'' ''abcdefgh'' ''u'' ! 2) = 2 \<and>
        chunk_title (chunk_page_content pieces_of_three ''T'' ''abcdefgh'' ''u'' ! 2) = ''T'' \<and>
        chunk_url (chunk_page_content pieces_of_three ''T'' ''abcdefgh'' ''u'' ! 2) = ''u''"
    by blast
  with ev show ?thesis by simp
qed

subsection \<open>The recursive splitter and the length of chunks\<close>

text \<open>Splitting at a boundary loses nothing.\<close>

lemma split_scan_concat: "concat (split_scan sep piece rest) = piece @ rest"
proof (induction sep piece rest rule: split_scan.induct)
  case (1 sep piece)
  show ?case by simp
next
  case (2 sep piece c cs)
  show ?case
  proof (cases "sep \<noteq> [] \<and> take (length sep) (c # cs) = sep")
    case True
    with "2.IH"(1) have "concat (split_scan sep sep (drop (length sep) (c # cs))) =
                          sep @ drop (length sep) (c # cs)"
      by simp
    moreover from True have "sep @ drop (length sep) (c # cs) = c # cs"
      by (metis append_take_drop_id)
    ultimately show ?thesis using True by simp
  next
    case False
    with "2.IH"(2) show ?thesis by auto
  qed
qed

lemma split_on_concat: "concat (split_on sep page_text) = page_text"
proof (cases "sep = []")
  case True
  have "concat (map (\<lambda>c. [c]) page_text) = page_text" by (induction page_text) auto
  with True show ?thesis by (simp add: split_on_def)
next
  case False
  have "concat (filter (\<lambda>piece. piece \<noteq> []) xs) = concat xs" for xs :: "string list"
    by (induction xs) auto
  with False show ?thesis by (simp add: split_on_def split_scan_concat)
qed

text \<open>The segments that merging produces are within the maximum.\<close>

lemma trim_overlap_bound:
  "total_length (trim_overlap chunk_size chunk_overlap len current) + len \<le> chunk_size \<or>
   total_length (trim_overlap chunk_size chunk_overlap len current) = 0"
proof (induction current)
  case Nil
  show ?case by simp
next
  case (Cons p ps)
  show ?case
  proof (cases "chunk_overlap < total_length (p # ps) \<or>
         (chunk_size < total_length (p # ps) + len \<and> 0 < total_length (p # ps))")
    case True
    with Cons.IH show ?thesis by simp
  next
    case False
    then have "trim_overlap chunk_size chunk_overlap len (p # ps) = p # ps"
      by (auto simp del: total_length.simps)
    with False show ?thesis by (auto simp del: total_length.simps)
  qed
qed

lemma length_concat_total: "length (concat ds) = total_length ds"
  by (induction ds) auto

lemma total_append: "total_length (xs @ ys) = total_length xs + total_length ys"
  by (induction xs) auto

lemma merge_from_bound:
  assumes "total_length current \<le> chunk_size"
    and "\<forall>d \<in> set ds. length d \<le> chunk_size"
    and "c \<in> set (merge_from chunk_size chunk_overlap current ds)"
  shows "length c \<le> chunk_size"
  using assms
proof (induction ds arbitrary: current)
  case Nil
  then show ?case by (auto simp: length_concat_total split: if_splits)
next
  case (Cons d ds)
  from Cons.prems(2) have d: "length d \<le> chunk_size" and ds: "\<forall>d \<in> set ds. length d \<le> chunk_size"
    by auto
  show ?case
  proof (cases "chunk_size < total_length current + length d")
    case False
    then have fits: "total_length (current @ [d]) \<le> chunk_size" by (simp add: total_append)
    from False Cons.prems(3) have "c \<in> set (merge_from chunk_size chunk_overlap (current @ [d]) ds)"
      by simp
    from Cons.IH [OF fits ds this] show ?thesis .
  next
    case True
    show ?thesis
    proof (cases "current = []")
      case True
      with \<open>chunk_size < total_length current + length d\<close> Cons.prems(3)
      have "c \<in> set (merge_from chunk_size chunk_overlap [d] ds)" by simp
      moreover from d have "total_length [d] \<le> chunk_size" by simp
      ultimately show ?thesis using Cons.IH ds by blast
    next
      case False
      let ?kept = "trim_overlap chunk_size chunk_overlap (length d) current"
      from trim_overlap_bound [of chunk_size chunk_overlap "length d" current] d
      have kept: "total_length (?kept @ [d]) \<le> chunk_size" by (auto simp: total_append)
      from False True Cons.prems(3)
      have "c = concat current \<or> c \<in> set (merge_from chunk_size chunk_overlap (?kept @ [d]) ds)"
        by simp
      then show ?thesis
      proof
        assume "c = concat current"
        with Cons.prems(1) show ?thesis by (simp add: length_concat_total)
      next
        assume "c \<in> set (merge_from chunk_size chunk_overlap (?kept @ [d]) ds)"
        from Cons.IH [OF kept ds this] show ?thesis .
      qed
    qed
  qed
qed

lemma merge_splits_bound:
  "\<forall>d \<in> set splits. length d \<le> chunk_size \<Longrightarrow>
   c \<in> set (merge_splits chunk_size chunk_overlap splits) \<Longrightarrow> length c \<le> chunk_size"
  unfolding merge_splits_def by (rule merge_from_bound [of "[]"]) simp_all

lemma handle_pieces_bound:
  assumes "\<forall>g \<in> set small. length g \<le> chunk_size"
    and "c \<in> set (handle_pieces deeper chunk_size chunk_overlap small ps)"
  shows "length c \<le> chunk_size \<or> (\<exists>p \<in> set ps. chunk_size \<le> length p \<and> c \<in> set (deeper p))"
  using assms
proof (induction ps arbitrary: small)
  case Nil
  then show ?case by (auto dest: merge_splits_bound)
next
  case (Cons p ps)
  show ?case
  proof (cases "length p < chunk_size")
    case True
    with Cons.prems(1) have small: "\<forall>g \<in> set (small @ [p]). length g \<le> chunk_size" by auto
    from True Cons.prems(2)
    have "c \<in> set (handle_pieces deeper chunk_size chunk_overlap (small @ [p]) ps)" by simp
    from Cons.IH [OF small this] show ?thesis by auto
  next
    case False
    with Cons.prems(2)
    have "c \<in> set (merge_splits chunk_size chunk_overlap small) \<or> c \<in> set (deeper p) \<or>
          c \<in> set (handle_pieces deeper chunk_size chunk_overlap [] ps)"
      by auto
    then show ?thesis
    proof (elim disjE)
      assume "c \<in> set (merge_splits chunk_size chunk_overlap small)"
      with Cons.prems(1) show ?thesis by (auto dest: merge_splits_bound)
    next
      assume "c \<in> set (deeper p)"
      with False show ?thesis by auto
    next
      assume "c \<in> set (handle_pieces deeper chunk_size chunk_overlap [] ps)"
      from Cons.IH [OF _ this] show ?thesis by auto
    qed
  qed
qed

lemma handle_pieces_keeps:
  "p \<in> set ps \<Longrightarrow> chunk_size \<le> length p \<Longrightarrow>
   set (deeper p) \<subseteq> set (handle_pieces deeper chunk_size chunk_overlap small ps)"
proof (induction ps arbitrary: small)
  case Nil
  then show ?case by simp
next
  case (Cons q qs)
  show ?case
  proof (cases "p = q")
    case True
    with Cons.prems(2) show ?thesis by auto
  next
    case False
    with Cons.prems have "p \<in> set qs" by simp
    from Cons.IH [OF this Cons.prems(2)] show ?thesis by auto
  qed
qed

lemma split_text_bound:
  "c \<in> set (split_text separators chunk_size chunk_overlap page_text) \<Longrightarrow>
   length c \<le> chunk_size \<or> c \<in> set (oversized_units separators chunk_size page_text)"
proof (induction separators arbitrary: page_text)
  case Nil
  then show ?case by simp
next
  case (Cons sep separators)
  from Cons.prems
  have "c \<in> set (handle_pieces (split_text separators chunk_size chunk_overlap)
                    chunk_size chunk_overlap [] (split_on sep page_text))"
    by simp
  from handle_pieces_bound [OF _ this]
  have "length c \<le> chunk_size \<or>
        (\<exists>p \<in> set (split_on sep page_text). chunk_size \<le> length p \<and>
            c \<in> set (split_text separators chunk_size chunk_overlap p))"
    by simp
  then show ?case
  proof
    assume "length c \<le> chunk_size"
    then show ?thesis by simp
  next
    assume "\<exists>p \<in> set (split_on sep page_text). chunk_size \<le> length p \<and>
            c \<in> set (split_text separators chunk_size chunk_overlap p)"
    then obtain p where p: "p \<in> set (split_on sep page_text)" "chunk_size \<le> length p"
      and c: "c \<in> set (split_text separators chunk_size chunk_overlap p)"
      by blast
    from Cons.IH [OF c] p show ?thesis by auto
  qed
qed

lemma oversized_units_emitted:
  "set (oversized_units separators chunk_size page_text)
     \<subseteq> set (split_text separators chunk_size chunk_overlap page_text)"
proof (induction separators arbitrary: page_text)
  case Nil
  show ?case by simp
next
  case (Cons sep separators)
  show ?case
  proof
    fix u
    assume "u \<in> set (oversized_units (sep # separators) chunk_size page_text)"
    then obtain p where p: "p \<in> set (split_on sep page_text)" "chunk_size \<le> length p"
      and u: "u \<in> set (oversized_units separators chunk_size p)"
      by auto
    from Cons.IH u have "u \<in> set (split_text separators chunk_size chunk_overlap p)" by blast
    with handle_pieces_keeps [OF p, of "split_text separators chunk_size chunk_overlap" chunk_overlap "[]"]
    show "u \<in> set (split_text (sep # separators) chunk_size chunk_overlap page_text)"
      by auto
  qed
qed

lemma oversized_units_hard_cut:
  "[] \<in> set separators \<Longrightarrow> 1 < chunk_size \<Longrightarrow> oversized_units separators chunk_size page_text = []"
proof (induction separators arbitrary: page_text)
  case Nil
  then show ?case by simp
next
  case (Cons sep separators)
  show ?case
  proof (cases "sep = []")
    case True
    have "filter (\<lambda>p. chunk_size \<le> length p) (map (\<lambda>c. [c]) page_text) = []"
      using Cons.prems(2) by (induction page_text) auto
    with True show ?thesis by (simp add: split_on_def)
  next
    case False
    with Cons.prems have "[] \<in> set separators" by auto
    from Cons.IH [OF this Cons.prems(2)] show ?thesis by simp
  qed
qed

lemma oversized_units_length:
  "u \<in> set (oversized_units separators chunk_size page_text) \<Longrightarrow> separators \<noteq> [] \<Longrightarrow>
   chunk_size \<le> length u"
proof (induction separators arbitrary: page_text)
  case Nil
  then show ?case by simp
next
  case (Cons sep separators)
  from Cons.prems(1) obtain p where p: "p \<in> set (split_on sep page_text)" "chunk_size \<le> length p"
    and u: "u \<in> set (oversized_units separators chunk_size p)"
    by auto
  show ?case
  proof (cases "separators = []")
    case True
    with u p show ?thesis by simp
  next
    case False
    from Cons.IH [OF u False] show ?thesis .
  qed
qed

lemma chunk_texts:
  "map chunk_text (chunk_page_content create_documents title page_text url) =
   (if page_text = [] then [] else create_documents page_text)"
proof -
  have "map (chunk_text \<circ> (\<lambda>(i, doc). \<lparr>chunk_url = url, chunk_title = title, chunk_id = i, chunk_text = doc\<rparr>))
          (enumerate 0 docs) = docs" for docs :: "string list"
    by (simp add: enumerate_eq_zip comp_def case_prod_unfold)
  then show ?thesis by (simp add: chunk_page_content_def)
qed

text \<open>
  Claim C6, for the splitter as the specification describes it, with any list of
  separators, any maximum size and any overlap (the page of the claim has the maximum
  2000 and the overlap 200). Every chunk of a page has a text no longer than the
  maximum chunk size, except a chunk whose text is a single indivisible unit longer
  than the maximum: a piece left over when no separator of the list is available any
  more. Every such unit is the text of a chunk, whole: it is neither truncated nor
  dropped. When the list of separators contains the hard cut, as the default list
  does, there is no such unit and every chunk is within the maximum.
\<close>

theorem chunk_length_bound:
  "(\<forall>ch \<in> set (chunk_page_content (split_text separators chunk_size chunk_overlap) title page_text url).
      length (chunk_text ch) \<le> chunk_size \<or>
      (chunk_size < length (chunk_text ch) \<and>
       chunk_text ch \<in> set (oversized_units separators chunk_size page_text))) \<and>
   (page_text \<noteq> [] \<longrightarrow>
      set (oversized_units separators chunk_size page_text) \<subseteq>
        chunk_text ` set (chunk_page_content (split_text separators chunk_size chunk_overlap)
                            title page_text url)) \<and>
   ([] \<in> set separators \<and> 1 < chunk_size \<longrightarrow>
      (\<forall>ch \<in> set (chunk_page_content (split_text separators chunk_size chunk_overlap) title page_text url).
         length (chunk_text ch) \<le> chunk_size))"
proof -
  let ?chunks = "chunk_page_content (split_text separators chunk_size chunk_overlap) title page_text url"
  have texts: "chunk_text ` set ?chunks =
               (if page_text = [] then {} else set (split_text separators chunk_size chunk_overlap page_text))"
    using chunk_texts [of "split_text separators chunk_size chunk_overlap" title page_text url]
    by (metis (no_types, lifting) list.set(1) set_map)
  have member: "chunk_text ch \<in> set (split_text separators chunk_size chunk_overlap page_text)"
    if "ch \<in> set ?chunks" for ch
    using that texts by (cases "page_text = []") auto
  have bound: "length (chunk_text ch) \<le> chunk_size \<or>
               (chunk_size < length (chunk_text ch) \<and>
                chunk_text ch \<in> set (oversized_units separators chunk_size page_text))"
    if "ch \<in> set ?chunks" for ch
    using split_text_bound [OF member [OF that]] by auto
  have kept: "set (oversized_units separators chunk_size page_text) \<subseteq> chunk_text ` set ?chunks"
    if "page_text \<noteq> []"
    using that texts oversized_units_emitted [of separators chunk_size page_text chunk_overlap]
    by simp
  have cut: "length (chunk_text ch) \<le> chunk_size"
    if "[] \<in> set separators" "1 < chunk_size" "ch \<in> set ?chunks" for ch
    using bound [OF that(3)] oversized_units_hard_cut [OF that(1) that(2), of page_text]
    by auto
  from bound kept cut show ?thesis by blast
qed

theorem chunk_length_bound_witness:
  "map chunk_text (chunk_page_content (split_text ['' ''] 10 3) ''T'' sample_text ''u'') =
     [''one two'', '' three'', '' averyveryverylongword'', '' end''] \<and>
   oversized_units ['' ''] 10 sample_text = ['' averyveryverylongword''] \<and>
   set (oversized_units ['' ''] 10 sample_text) \<subseteq>
     chunk_text ` set (chunk_page_content (split_text ['' ''] 10 3) ''T'' sample_text ''u'') \<and>
   list_all (\<lambda>ch. length (chunk_text ch) \<le> 10)
     (chunk_page_content (split_text default_separators 10 3) ''T'' sample_text ''u'') \<and>
   list_all (\<lambda>ch. length (chunk_text ch) \<le> 2000)
     (chunk_page_content (split_text default_separators 2000 200) ''T'' sample_text ''u'')"
proof -
  have ev1: "map chunk_text (chunk_page_content (split_text ['' ''] 10 3) ''T'' sample_text ''u'') =
     [''one two'', '' three'', '' averyveryverylongword'', '' end'']"
    by code_simp
  have ev2: "oversized_units ['' ''] 10 sample_text = ['' averyveryverylongword'']"
    by code_simp
  have ne: "sample_text \<noteq> []"
    by (simp add: sample_text_def)
  have cut: "[] \<in> set default_separators"
    by (simp add: default_separators_def)
  from chunk_length_bound [of "['' '']" 10 3 "''T''" sample_text "''u''"] ne
  have kept: "set (oversized_units ['' ''] 10 sample_text) \<subseteq>
     chunk_text ` set (chunk_page_content (split_text ['' ''] 10 3) ''T'' sample_text ''u'')"
    by blast
  from chunk_length_bound [of default_separators 10 3 "''T''" sample_text "''u''"] cut
  have b10: "list_all (\<lambda>ch. length (chunk_text ch) \<le> 10)
     (chunk_page_content (split_text default_separators 10 3) ''T'' sample_text ''u'')"
    by (simp add: list_all_iff)
  from chunk_length_bound [of default_separators 2000 200 "''T''" sample_text "''u''"] cut
  have b2000: "list_all (\<lambda>ch. length (chunk_text ch) \<le> 2000)
     (chunk_page_content (split_text default_separators 2000 200) ''T'' sample_text ''u'')"
    by (simp add: list_all_iff)
  from ev1 ev2 kept b10 b2000 show ?thesis by blast
qed

end
